theory Spec2Isabelle
  imports Main "HOL-Library.Signed_Division" "HOL-Library.Word"
begin

section \<open>HTTP objects shared by the filters\<close>

text \<open>
  Byte strings are character lists (an Isabelle character is one byte).  A reader is
  a stream that hands out \<open>content\<close> and then stops with the error \<open>ending\<close>:
  \<open>EOF\<close> for a clean end of stream, anything else for a broken one.
\<close>

type_synonym bytes = string

datatype ioerr = EOF | ErrOther string

record reader =
  content :: bytes
  ending :: ioerr

text \<open>
  \<open>io.CopyN(dst, src, n)\<close> of the Go standard library, from its documented contract:
  it copies \<open>n\<close> bytes or until an error, returns the number of bytes copied and the
  earliest error, and the error is nil exactly when \<open>n\<close> bytes were copied.  For
  \<open>n \<le> 0\<close> nothing is read and the error is nil.  The result is the text appended
  to \<open>dst\<close>, the count and the error.
\<close>

definition CopyN :: "reader \<Rightarrow> int \<Rightarrow> bytes \<times> int \<times> ioerr option" where
  "CopyN src n =
     (if n \<le> 0 then ([], 0, None)
      else if n \<le> int (length (content src)) then (take (nat n) (content src), n, None)
      else (content src, int (length (content src)), Some (ending src)))"

text \<open>
  \<open>http.Header\<close>: a map from the canonical form of a key to its values.  The
  canonical form is computed by the standard library (\<open>CanonicalMIMEHeaderKey\<close>); it
  is a parameter \<open>canon\<close> here.
\<close>

type_synonym header = "string \<rightharpoonup> string list"

definition Header_Set :: "(string \<Rightarrow> string) \<Rightarrow> string \<Rightarrow> string \<Rightarrow> header \<Rightarrow> header" where
  "Header_Set canon key val h = h(canon key \<mapsto> [val])"

definition Header_Add :: "(string \<Rightarrow> string) \<Rightarrow> string \<Rightarrow> string \<Rightarrow> header \<Rightarrow> header" where
  "Header_Add canon key val h =
     h(canon key \<mapsto> (case h (canon key) of None \<Rightarrow> [] | Some vs \<Rightarrow> vs) @ [val])"

definition Header_Get :: "(string \<Rightarrow> string) \<Rightarrow> string \<Rightarrow> header \<Rightarrow> string" where
  "Header_Get canon key h =
     (case h (canon key) of None \<Rightarrow> [] | Some [] \<Rightarrow> [] | Some (v # _) \<Rightarrow> v)"

text \<open>\<open>Header.Values\<close>: all the values stored under a canonical key.\<close>

definition Header_Values :: "header \<Rightarrow> string \<Rightarrow> string list" where
  "Header_Values h k = (case h k of None \<Rightarrow> [] | Some vs \<Rightarrow> vs)"

text \<open>
  \<open>httpprot.Response\<close>: status code, header and payload.  The payload is the reader
  that \<open>Payload().NewReader()\<close> hands out, \<open>None\<close> when that is nil.
\<close>

record response =
  statusCode :: int
  header :: header
  payload :: "reader option"

definition bytesReader :: "bytes \<Rightarrow> reader" where
  "bytesReader b = \<lparr>content = b, ending = EOF\<rparr>"

definition StatusOK :: int where "StatusOK = 200"
definition StatusBadRequest :: int where "StatusBadRequest = 400"
definition StatusRequestEntityTooLarge :: int where "StatusRequestEntityTooLarge = 413"
definition StatusInternalServerError :: int where "StatusInternalServerError = 500"
definition StatusServiceUnavailable :: int where "StatusServiceUnavailable = 503"
definition StatusInsufficientStorage :: int where "StatusInsufficientStorage = 507"

section \<open>APIAggregator\<close>

subsection \<open>Specification and context\<close>

text \<open>
  \<open>Pipeline\<close> and \<open>Spec\<close> of \<open>apiaggregator.go\<close>.  \<open>pa\<close> is the compiled path
  adaptor (\<open>None\<close> when the pipeline has no \<open>Path\<close>); the \<open>Header\<close> adaptor and the
  timeout play no part in what \<open>Handle\<close> computes from the sub-responses and are left
  out.
\<close>

record pipeline =
  Name :: string
  Method :: string
  pa :: "(string \<Rightarrow> string) option"
  DisableBody :: bool

record spec =
  MaxBodyBytes :: int
  PartialSucceed :: bool
  MergeResponse :: bool
  Pipelines :: "pipeline list"

record request =
  reqMethod :: string
  urlPath :: string
  body :: reader

datatype tag =
    RequestBodyExceed int
  | ReadRequestBodyFailed "ioerr option"
  | ResponseBodyExceed int
  | ReadResponseBodyFailed "ioerr option"
  | UnmarshalFailed bytes
  | MarshalFailed

record hcontext =
  request :: request
  response :: response
  tags :: "tag list"

definition AddTag :: "tag \<Rightarrow> hcontext \<Rightarrow> hcontext" where
  "AddTag t ctx = ctx\<lparr>tags := tags ctx @ [t]\<rparr>"

definition SetStatusCode :: "int \<Rightarrow> hcontext \<Rightarrow> hcontext" where
  "SetStatusCode c ctx = ctx\<lparr>response := (response ctx)\<lparr>statusCode := c\<rparr>\<rparr>"

definition SetHeader :: "(string \<Rightarrow> string) \<Rightarrow> string \<Rightarrow> string \<Rightarrow> hcontext \<Rightarrow> hcontext" where
  "SetHeader canon k v ctx =
     ctx\<lparr>response := (response ctx)\<lparr>header := Header_Set canon k v (header (response ctx))\<rparr>\<rparr>"

definition SetReader :: "bytes \<Rightarrow> hcontext \<Rightarrow> hcontext" where
  "SetReader buff ctx = ctx\<lparr>response := (response ctx)\<lparr>payload := Some (bytesReader buff)\<rparr>\<rparr>"

definition resultFailed :: string where
  "resultFailed = ''failed''"

subsection \<open>Collaborators outside the filter\<close>

text \<open>
  What \<open>jsoniter.Marshal\<close> is applied to: the accumulator object of merge mode or
  the list of objects of array mode.  An object is a Go \<open>map[string]interface{}\<close>,
  with \<open>'v\<close> the decoded values.
\<close>

datatype 'v jvalue = JObj "string \<rightharpoonup> 'v" | JArr "(string \<rightharpoonup> 'v) list"

text \<open>
  The collaborators of \<open>Handle\<close>, none of them part of the filter:
  \<^item> \<open>GetHTTPPipeline\<close>: the lookup of the traffic controller; a handler maps the
    derived request to the response its filter chain leaves in the fresh context;
  \<^item> \<open>NewRequestWithContext\<close>: \<open>http.NewRequestWithContext\<close> applied to method, URL
    and body (\<open>None\<close> is its error);
  \<^item> \<open>Unmarshal\<close>: \<open>jsoniter.Unmarshal(resp, &m)\<close> as a function of the bytes and
    of the map \<open>m\<close> before the call, \<open>None\<close> being its error;
  \<^item> \<open>Marshal\<close>: \<open>jsoniter.Marshal\<close>, \<open>None\<close> being its error;
  \<^item> \<open>CanonicalKey\<close>: the canonical form of a header key;
  \<^item> \<open>EGStatusBadResponse\<close>: the constant \<open>context.EGStatusBadResponse\<close>;
  \<^item> \<open>rangeOrder\<close>: the order in which a \<open>range\<close> loop enumerates the entries of
    the map \<open>data\<close>, which the language leaves to the runtime.
\<close>

record ('v, 'rq) env =
  GetHTTPPipeline :: "string \<Rightarrow> ('rq \<Rightarrow> response) option"
  NewRequestWithContext :: "string \<Rightarrow> string \<Rightarrow> bytes option \<Rightarrow> 'rq option"
  Unmarshal :: "bytes \<Rightarrow> (string \<rightharpoonup> 'v) \<Rightarrow> (string \<rightharpoonup> 'v) option"
  Marshal :: "'v jvalue \<Rightarrow> bytes option"
  CanonicalKey :: "string \<Rightarrow> string"
  EGStatusBadResponse :: int
  rangeOrder :: "(string \<rightharpoonup> bytes) \<Rightarrow> (string \<times> bytes) list"

text \<open>
  An enumeration of a Go map visits every entry exactly once: \<open>kvs\<close> is a possible
  enumeration of \<open>m\<close>.
\<close>

definition range_of :: "('k \<rightharpoonup> 'a) \<Rightarrow> ('k \<times> 'a) list \<Rightarrow> bool" where
  "range_of m kvs \<longleftrightarrow> distinct (map fst kvs) \<and> map_of kvs = m"

subsection \<open>Handle\<close>

text \<open>
  Lines 180 to 193: the inbound body.  \<open>Inl\<close> is an early return of \<open>Handle\<close> with
  its result and the context it leaves; \<open>Inr\<close> is the buffer \<open>buff\<close>.
\<close>

definition readRequestBody :: "spec \<Rightarrow> hcontext \<Rightarrow> (string \<times> hcontext) + bytes" where
  "readRequestBody S ctx =
     (if MaxBodyBytes S > 0 then
        (case CopyN (body (request ctx)) (MaxBodyBytes S + 1) of
           (buff, written, err) \<Rightarrow>
             if written > MaxBodyBytes S then
               Inl (resultFailed,
                    SetStatusCode StatusRequestEntityTooLarge
                      (AddTag (RequestBodyExceed (MaxBodyBytes S)) ctx))
             else if err \<noteq> Some EOF then
               Inl (resultFailed,
                    SetStatusCode StatusBadRequest (AddTag (ReadRequestBodyFailed err) ctx))
             else Inr buff)
      else Inr [])"

text \<open>
  \<open>newHTTPReq\<close>.  \<open>url\<close> is the URL of the inbound request itself, so the adapted
  path is written back into the context.
\<close>

definition newHTTPReq ::
  "('v, 'rq) env \<Rightarrow> hcontext \<Rightarrow> pipeline \<Rightarrow> bytes \<Rightarrow> 'rq option \<times> hcontext" where
  "newHTTPReq E ctx p buff =
     (let httpreq = request ctx;
          m = (if Method p \<noteq> [] then Method p else reqMethod httpreq);
          path = (case pa p of Some adapt \<Rightarrow> adapt (urlPath httpreq)
                  | None \<Rightarrow> urlPath httpreq);
          ctx' = ctx\<lparr>request := httpreq\<lparr>urlPath := path\<rparr>\<rparr>;
          b = (if \<not> DisableBody p then Some buff else None)
      in (NewRequestWithContext E m path b, ctx'))"

text \<open>
  The body of one worker (lines 207 to 222): what it leaves in its slot of
  \<open>httpResps\<close>.
\<close>

definition worker :: "('v, 'rq) env \<Rightarrow> string \<Rightarrow> 'rq \<Rightarrow> response option" where
  "worker E name req =
     (case GetHTTPPipeline E name of
        None \<Rightarrow> None
      | Some handler \<Rightarrow>
          (let rsp = handler req
           in if statusCode rsp = StatusOK then Some rsp else None))"

text \<open>
  The dispatch loop (lines 198 to 225).  Every worker writes its own slot only, so
  after the barrier the slots are the workers' results in the order of the pipelines,
  whatever the interleaving.  \<open>Inl\<close> is the early return on a failed \<open>newHTTPReq\<close>.
\<close>

fun dispatch ::
  "('v, 'rq) env \<Rightarrow> bytes \<Rightarrow> pipeline list \<Rightarrow> hcontext
     \<Rightarrow> (string \<times> hcontext) + (response option list \<times> hcontext)" where
  "dispatch E buff [] ctx = Inr ([], ctx)"
| "dispatch E buff (p # ps) ctx =
     (case newHTTPReq E ctx p buff of
        (None, ctx') \<Rightarrow> Inl (resultFailed, SetStatusCode StatusBadRequest ctx')
      | (Some req, ctx') \<Rightarrow>
          (case dispatch E buff ps ctx' of
             Inl ret \<Rightarrow> Inl ret
           | Inr (httpResps, ctx'') \<Rightarrow> Inr (worker E (Name p) req # httpResps, ctx'')))"

definition copyHTTPBody2Map ::
  "spec \<Rightarrow> reader \<Rightarrow> hcontext \<Rightarrow> (string \<rightharpoonup> bytes) \<Rightarrow> string
     \<Rightarrow> string \<times> hcontext \<times> (string \<rightharpoonup> bytes)" where
  "copyHTTPBody2Map S rd ctx data name =
     (case CopyN rd (MaxBodyBytes S) of
        (respBody, written, err) \<Rightarrow>
          if written > MaxBodyBytes S then
            (resultFailed,
             SetStatusCode StatusInsufficientStorage
               (AddTag (ResponseBodyExceed (MaxBodyBytes S)) ctx), data)
          else if err \<noteq> Some EOF then
            (resultFailed,
             SetStatusCode StatusInternalServerError
               (AddTag (ReadResponseBodyFailed err) ctx), data)
          else ([], ctx, data(name \<mapsto> respBody)))"

text \<open>
  The loop over the slots (lines 238 to 251), each slot paired with the pipeline of
  the same index.
\<close>

fun collect ::
  "(string \<Rightarrow> string) \<Rightarrow> spec \<Rightarrow> (pipeline \<times> response option) list
     \<Rightarrow> (string \<rightharpoonup> bytes) \<Rightarrow> hcontext
     \<Rightarrow> (string \<times> hcontext) + ((string \<rightharpoonup> bytes) \<times> hcontext)" where
  "collect canon S [] data ctx = Inr (data, ctx)"
| "collect canon S ((p, resp) # rest) data ctx =
     (if resp = None \<and> \<not> PartialSucceed S then
        Inl (resultFailed,
             SetStatusCode StatusServiceUnavailable
               (SetHeader canon ''X-EG-Aggregator'' (''failed-in-'' @ Name p) ctx))
      else
        (case resp of
           None \<Rightarrow> collect canon S rest data ctx
         | Some r \<Rightarrow>
             (case payload r of
                None \<Rightarrow> collect canon S rest data ctx
              | Some rd \<Rightarrow>
                  (case copyHTTPBody2Map S rd ctx data (Name p) of
                     (res, ctx', data') \<Rightarrow>
                       if res \<noteq> [] then Inl (res, ctx')
                       else collect canon S rest data' ctx'))))"

text \<open>The two decoding loops of \<open>formatResponse\<close>; \<open>Inl\<close> is the body that failed.\<close>

fun unmarshalInto ::
  "(bytes \<Rightarrow> (string \<rightharpoonup> 'v) \<Rightarrow> (string \<rightharpoonup> 'v) option) \<Rightarrow> bytes list
     \<Rightarrow> (string \<rightharpoonup> 'v) \<Rightarrow> bytes + (string \<rightharpoonup> 'v)" where
  "unmarshalInto U [] result = Inr result"
| "unmarshalInto U (resp # rest) result =
     (case U resp result of
        None \<Rightarrow> Inl resp
      | Some result' \<Rightarrow> unmarshalInto U rest result')"

fun unmarshalEach ::
  "(bytes \<Rightarrow> (string \<rightharpoonup> 'v) \<Rightarrow> (string \<rightharpoonup> 'v) option) \<Rightarrow> bytes list
     \<Rightarrow> (string \<rightharpoonup> 'v) list \<Rightarrow> bytes + (string \<rightharpoonup> 'v) list" where
  "unmarshalEach U [] result = Inr result"
| "unmarshalEach U (resp # rest) result =
     (case U resp Map.empty of
        None \<Rightarrow> Inl resp
      | Some ele \<Rightarrow> unmarshalEach U rest (result @ [ele]))"

text \<open>
  \<open>formatResponse\<close>, applied to the entries of \<open>data\<close> in the order the \<open>range\<close>
  loop visits them.
\<close>

definition formatResponse ::
  "('v, 'rq) env \<Rightarrow> spec \<Rightarrow> hcontext \<Rightarrow> (string \<times> bytes) list \<Rightarrow> string \<times> hcontext" where
  "formatResponse E S ctx kvs =
     (if MergeResponse S then
        (case unmarshalInto (Unmarshal E) (map snd kvs) Map.empty of
           Inl resp \<Rightarrow>
             (resultFailed, SetStatusCode (EGStatusBadResponse E) (AddTag (UnmarshalFailed resp) ctx))
         | Inr result \<Rightarrow>
             (case Marshal E (JObj result) of
                None \<Rightarrow>
                  (resultFailed, SetStatusCode StatusInternalServerError (AddTag MarshalFailed ctx))
              | Some buff \<Rightarrow> ([], SetReader buff ctx)))
      else
        (case unmarshalEach (Unmarshal E) (map snd kvs) [] of
           Inl resp \<Rightarrow>
             (resultFailed, SetStatusCode (EGStatusBadResponse E) (AddTag (UnmarshalFailed resp) ctx))
         | Inr result \<Rightarrow>
             (case Marshal E (JArr result) of
                None \<Rightarrow>
                  (resultFailed, SetStatusCode StatusInternalServerError (AddTag MarshalFailed ctx))
              | Some buff \<Rightarrow> ([], SetReader buff ctx))))"

definition Handle :: "('v, 'rq) env \<Rightarrow> spec \<Rightarrow> hcontext \<Rightarrow> string \<times> hcontext" where
  "Handle E S ctx =
     (case readRequestBody S ctx of
        Inl ret \<Rightarrow> ret
      | Inr buff \<Rightarrow>
          (case dispatch E buff (Pipelines S) ctx of
             Inl ret \<Rightarrow> ret
           | Inr (httpResps, ctx1) \<Rightarrow>
               (case collect (CanonicalKey E) S (zip (Pipelines S) httpResps) Map.empty ctx1 of
                  Inl ret \<Rightarrow> ret
                | Inr (data, ctx2) \<Rightarrow> formatResponse E S ctx2 (rangeOrder E data))))"

subsection \<open>A small concrete environment\<close>

text \<open>
  Stand-ins for the collaborators, used to run \<open>Handle\<close> on concrete inputs.  The
  decoder reads a two-byte body \<open>kv\<close> as the object with the single key \<open>k\<close> and
  value \<open>v\<close> and stores it into the map it is given, as unmarshalling into an existing
  map does; it rejects every other body.  The encoder writes the entries under the keys
  \<open>x\<close> and \<open>y\<close>.  The enumeration visits the keys in the order of a given list.
\<close>

definition demoUnmarshal :: "bytes \<Rightarrow> (string \<rightharpoonup> string) \<Rightarrow> (string \<rightharpoonup> string) option" where
  "demoUnmarshal b m = (case b of [k, v] \<Rightarrow> Some (m([k] \<mapsto> [v])) | _ \<Rightarrow> None)"

definition demoObject :: "(string \<rightharpoonup> string) \<Rightarrow> bytes" where
  "demoObject m =
     ''{'' @ concat (map (\<lambda>k. case m k of None \<Rightarrow> [] | Some v \<Rightarrow> k @ '':'' @ v @ '';'') [''x'', ''y''])
       @ ''}''"

fun demoMarshal :: "string jvalue \<Rightarrow> bytes option" where
  "demoMarshal (JObj m) = Some (demoObject m)"
| "demoMarshal (JArr ms) = Some (''['' @ concat (map demoObject ms) @ '']'')"

definition visitIn :: "string list \<Rightarrow> (string \<rightharpoonup> bytes) \<Rightarrow> (string \<times> bytes) list" where
  "visitIn names data = List.map_filter (\<lambda>n. map_option (Pair n) (data n)) names"

definition okResponse :: "bytes \<Rightarrow> response" where
  "okResponse b = \<lparr>statusCode = 200, header = Map.empty, payload = Some (bytesReader b)\<rparr>"

definition demoEnv ::
  "(string \<rightharpoonup> response) \<Rightarrow> string list \<Rightarrow> (string, string \<times> string \<times> bytes option) env" where
  "demoEnv table names =
     \<lparr>GetHTTPPipeline = (\<lambda>name. map_option (\<lambda>rsp req. rsp) (table name)),
      NewRequestWithContext = (\<lambda>m u b. Some (m, u, b)),
      Unmarshal = demoUnmarshal,
      Marshal = demoMarshal,
      CanonicalKey = (\<lambda>k. k),
      EGStatusBadResponse = 599,
      rangeOrder = visitIn names\<rparr>"

definition notFound :: "bytes \<Rightarrow> response" where
  "notFound b = \<lparr>statusCode = 404, header = Map.empty, payload = Some (bytesReader b)\<rparr>"

definition brokenResponse :: "bytes \<Rightarrow> response" where
  "brokenResponse b =
     \<lparr>statusCode = 200, header = Map.empty,
      payload = Some \<lparr>content = b, ending = ErrOther ''connection reset''\<rparr>\<rparr>"

definition demoPipeline :: "string \<Rightarrow> pipeline" where
  "demoPipeline n = \<lparr>Name = n, Method = [], pa = None, DisableBody = False\<rparr>"

definition demoSpec :: "int \<Rightarrow> bool \<Rightarrow> bool \<Rightarrow> string list \<Rightarrow> spec" where
  "demoSpec limit partial merge names =
     \<lparr>MaxBodyBytes = limit, PartialSucceed = partial, MergeResponse = merge,
      Pipelines = map demoPipeline names\<rparr>"

definition demoContext :: "bytes \<Rightarrow> hcontext" where
  "demoContext b =
     \<lparr>request = \<lparr>reqMethod = ''GET'', urlPath = ''/'', body = bytesReader b\<rparr>,
      response = \<lparr>statusCode = 200, header = Map.empty, payload = Some (bytesReader ''old'')\<rparr>,
      tags = []\<rparr>"

subsection \<open>Notions used to state the properties of Handle\<close>

text \<open>
  A sub-response body is read without error by \<open>copyHTTPBody2Map\<close> when it is
  shorter than \<open>MaxBodyBytes\<close> and ends cleanly.
\<close>

definition readable :: "spec \<Rightarrow> reader \<Rightarrow> bool" where
  "readable S rd \<longleftrightarrow> int (length (content rd)) < MaxBodyBytes S \<and> ending rd = EOF"

text \<open>
  A slot that does not stop the loop over the slots: an empty one when partial success
  is allowed, a non-empty one when it has no reader or its body is read without error.
\<close>

definition slotOK :: "spec \<Rightarrow> response option \<Rightarrow> bool" where
  "slotOK S slot \<longleftrightarrow>
     (case slot of None \<Rightarrow> PartialSucceed S
      | Some r \<Rightarrow> (case payload r of None \<Rightarrow> True | Some rd \<Rightarrow> readable S rd))"

text \<open>
  The name and body of every non-empty slot that has a reader, in the order of the
  slots.
\<close>

fun storedBodies :: "(pipeline \<times> response option) list \<Rightarrow> (string \<times> bytes) list" where
  "storedBodies [] = []"
| "storedBodies ((p, None) # rest) = storedBodies rest"
| "storedBodies ((p, Some r) # rest) =
     (case payload r of
        None \<Rightarrow> storedBodies rest
      | Some rd \<Rightarrow> (Name p, content rd) # storedBodies rest)"

text \<open>
  The map of bodies gathered from the non-empty slots, the empty ones left out; a later
  slot overwrites an earlier one of the same name.
\<close>

definition collected :: "pipeline list \<Rightarrow> response option list \<Rightarrow> (string \<rightharpoonup> bytes)" where
  "collected ps slots =
     map_of (rev (storedBodies (filter (\<lambda>x. snd x \<noteq> None) (zip ps slots))))"

text \<open>
  The body \<open>b\<close> is the text of the JSON object \<open>obj\<close>: unmarshalling it into a map
  stores the entries of \<open>obj\<close> into that map, keeping the other entries.
\<close>

definition decodesAs :: "('v, 'rq) env \<Rightarrow> bytes \<Rightarrow> (string \<rightharpoonup> 'v) \<Rightarrow> bool" where
  "decodesAs E b obj \<longleftrightarrow> (\<forall>m. Unmarshal E b m = Some (m ++ obj))"

text \<open>
  The schema tag of \<open>Spec.MaxBodyBytes\<close> (line 82): \<open>minimum=0,maximum=102400\<close>.
\<close>

definition MaxBodyBytes_minimum :: int where "MaxBodyBytes_minimum = 0"
definition MaxBodyBytes_maximum :: int where "MaxBodyBytes_maximum = 102400"

definition validMaxBodyBytes :: "int \<Rightarrow> bool" where
  "validMaxBodyBytes n \<longleftrightarrow> MaxBodyBytes_minimum \<le> n \<and> n \<le> MaxBodyBytes_maximum"

section \<open>Fallback\<close>

record fallbackSpec =
  MockCode :: int
  MockHeaders :: "string \<rightharpoonup> string"
  MockBody :: string

record fallback =
  fspec :: fallbackSpec
  mockBody :: bytes
  bodyLength :: string

text \<open>\<open>strconv.Itoa\<close>: the decimal text of an integer.\<close>

function natDigits :: "nat \<Rightarrow> string" where
  "natDigits n =
     (if n < 10 then [''0123456789'' ! n]
      else natDigits (n div 10) @ [''0123456789'' ! (n mod 10)])"
  by pat_completeness auto
termination
  by (relation "measure (\<lambda>n. n)") auto

declare natDigits.simps [simp del]

definition Itoa :: "int \<Rightarrow> string" where
  "Itoa i = (if i < 0 then CHR ''-'' # natDigits (nat (- i)) else natDigits (nat i))"

definition KeyContentLength :: string where
  "KeyContentLength = ''Content-Length''"

definition New :: "fallbackSpec \<Rightarrow> fallback" where
  "New sp =
     (let f = \<lparr>fspec = sp, mockBody = MockBody sp, bodyLength = []\<rparr>
      in f\<lparr>bodyLength := Itoa (int (length (mockBody f)))\<rparr>)"

text \<open>
  \<open>Fallback\<close>.  \<open>order\<close> is the order in which the \<open>range\<close> loop enumerates
  \<open>MockHeaders\<close>.
\<close>

definition Fallback ::
  "(string \<Rightarrow> string) \<Rightarrow> ((string \<rightharpoonup> string) \<Rightarrow> (string \<times> string) list) \<Rightarrow> fallback
     \<Rightarrow> response \<Rightarrow> response" where
  "Fallback canon order f w =
     (let w1 = w\<lparr>statusCode := MockCode (fspec f)\<rparr>;
          w2 = w1\<lparr>header := Header_Set canon KeyContentLength (bodyLength f) (header w1)\<rparr>;
          w3 = fold (\<lambda>(key, val) w'. w'\<lparr>header := Header_Set canon key val (header w')\<rparr>)
                 (order (MockHeaders (fspec f))) w2
      in w3\<lparr>payload := Some (bytesReader (mockBody f))\<rparr>)"

section \<open>CertExtractor\<close>

record pkixName =
  Country :: "string list"
  Organization :: "string list"
  OrganizationalUnit :: "string list"
  Locality :: "string list"
  Province :: "string list"
  StreetAddress :: "string list"
  PostalCode :: "string list"
  SerialNumber :: string
  CommonName :: string

record certificate =
  Subject :: pkixName
  Issuer :: pkixName

record connectionState =
  PeerCertificates :: "certificate list"

record tlsRequest =
  TLS :: "connectionState option"
  reqHeader :: header

record ceSpec =
  CertIndex :: "16 word"
  Target :: string
  Field :: string
  HeaderKey :: string

record certExtractor =
  cespec :: ceSpec
  headerKey :: string

datatype panic = DivideByZero | IndexOutOfRange | ControllerNotFound | ControllerWrongType

text \<open>
  The conversion of an integer to \<open>int16\<close>, which keeps the low 16 bits.  Go's \<open>%\<close>
  truncates towards zero: it is \<open>smod\<close> on the integers.
\<close>

definition int16 :: "int \<Rightarrow> int" where
  "int16 x = (x + 32768) mod 65536 - 32768"

text \<open>
  Lines 124 to 128: the certificate chosen, or the run-time panic of the division or
  of the indexing.
\<close>

definition certAt :: "16 word \<Rightarrow> certificate list \<Rightarrow> panic + certificate" where
  "certAt certIndex certs =
     (let n = int16 (int (length certs))
      in if n = 0 then Inl DivideByZero
         else
           (let relativeIndex = int16 (sint certIndex smod n);
                index = int16 (int16 (n + relativeIndex) smod n)
            in if index < 0 \<or> int (length certs) \<le> index then Inl IndexOutOfRange
               else Inr (certs ! nat index)))"

definition fieldValues :: "string \<Rightarrow> pkixName \<Rightarrow> string list" where
  "fieldValues fld target =
     (if fld = ''Country'' then Country target
      else if fld = ''Organization'' then Organization target
      else if fld = ''OrganizationalUnit'' then OrganizationalUnit target
      else if fld = ''Locality'' then Locality target
      else if fld = ''Province'' then Province target
      else if fld = ''StreetAddress'' then StreetAddress target
      else if fld = ''PostalCode'' then PostalCode target
      else if fld = ''SerialNumber'' then [SerialNumber target]
      else if fld = ''CommonName'' then [CommonName target]
      else [])"

definition addValues :: "(string \<Rightarrow> string) \<Rightarrow> string \<Rightarrow> string list \<Rightarrow> header \<Rightarrow> header" where
  "addValues canon key result h =
     fold (\<lambda>res h'. if res \<noteq> [] then Header_Add canon key res h' else h') result h"

definition handle ::
  "(string \<Rightarrow> string) \<Rightarrow> certExtractor \<Rightarrow> tlsRequest \<Rightarrow> panic + (string \<times> tlsRequest)" where
  "handle canon ce r =
     (case TLS r of
        None \<Rightarrow> Inr ([], r)
      | Some connState \<Rightarrow>
          (let certs = PeerCertificates connState
           in if length certs < 1 then Inr ([], r)
              else
                (case certAt (CertIndex (cespec ce)) certs of
                   Inl p \<Rightarrow> Inl p
                 | Inr cert \<Rightarrow>
                     (let target = (if Target (cespec ce) = ''subject'' then Subject cert
                                    else Issuer cert);
                          result = fieldValues (Field (cespec ce)) target
                      in Inr ([], r\<lparr>reqHeader :=
                                     addValues canon (headerKey ce) result (reqHeader r)\<rparr>)))))"

definition CertExtractor_Handle ::
  "(string \<Rightarrow> string) \<Rightarrow> certExtractor \<Rightarrow> tlsRequest \<Rightarrow> panic + (string \<times> tlsRequest)" where
  "CertExtractor_Handle canon ce r = handle canon ce r"

section \<open>Lifecycle: Init, Inherit, Close\<close>

text \<open>
  A filter of either kind, and the trace of the lifecycle calls made so far.  Both
  \<open>Close\<close> methods have an empty body, so a call of \<open>Close\<close> leaves nothing but its
  entry in the trace.  \<open>'c\<close> is the traffic controller an aggregator holds.
\<close>

record 'c aggregator =
  aaSpec :: spec
  rctc :: 'c

datatype 'c filter = AAFilter "'c aggregator" | CEFilter certExtractor

datatype filterSpec = AASpec spec | CESpec ceSpec

datatype 'c call = CloseCall "'c filter" | InitCall filterSpec

text \<open>
  What \<open>GetSystemController\<close> finds under the controller's kind: nothing, an entity
  whose instance is no traffic controller, or the controller.
\<close>

datatype 'c entity = OtherInstance | RawConfigTrafficController 'c

definition Close :: "'c filter \<Rightarrow> 'c call list \<Rightarrow> 'c call list" where
  "Close f tr = tr @ [CloseCall f]"

definition APIAggregator_Init ::
  "'c entity option \<Rightarrow> spec \<Rightarrow> 'c call list \<Rightarrow> 'c call list \<times> (panic + 'c aggregator)" where
  "APIAggregator_Init sysctl sp tr =
     (let tr' = tr @ [InitCall (AASpec sp)]
      in case sysctl of
           None \<Rightarrow> (tr', Inl ControllerNotFound)
         | Some OtherInstance \<Rightarrow> (tr', Inl ControllerWrongType)
         | Some (RawConfigTrafficController c) \<Rightarrow> (tr', Inr \<lparr>aaSpec = sp, rctc = c\<rparr>))"

definition APIAggregator_Inherit ::
  "'c entity option \<Rightarrow> spec \<Rightarrow> 'c filter \<Rightarrow> 'c call list
     \<Rightarrow> 'c call list \<times> (panic + 'c aggregator)" where
  "APIAggregator_Inherit sysctl sp previousGeneration tr =
     APIAggregator_Init sysctl sp (Close previousGeneration tr)"

definition CertExtractor_Init :: "ceSpec \<Rightarrow> 'c call list \<Rightarrow> 'c call list \<times> certExtractor" where
  "CertExtractor_Init sp tr =
     (tr @ [InitCall (CESpec sp)],
      \<lparr>cespec = sp,
       headerKey = (if HeaderKey sp \<noteq> [] then HeaderKey sp
                    else ''tls-'' @ Target sp @ ''-'' @ Field sp)\<rparr>)"

definition CertExtractor_Inherit ::
  "ceSpec \<Rightarrow> 'c filter \<Rightarrow> 'c call list \<Rightarrow> 'c call list \<times> certExtractor" where
  "CertExtractor_Inherit sp previousGeneration tr =
     CertExtractor_Init sp (Close previousGeneration tr)"

section \<open>Concrete certificates and mock responses\<close>

definition demoName :: "string \<Rightarrow> pkixName" where
  "demoName cn =
     \<lparr>Country = [''NL'', []], Organization = [], OrganizationalUnit = [], Locality = [],
      Province = [], StreetAddress = [], PostalCode = [], SerialNumber = [], CommonName = cn\<rparr>"

definition demoCert :: "string \<Rightarrow> certificate" where
  "demoCert cn = \<lparr>Subject = demoName cn, Issuer = demoName ''ca''\<rparr>"

definition demoTLS :: "certificate list \<Rightarrow> tlsRequest" where
  "demoTLS certs = \<lparr>TLS = Some \<lparr>PeerCertificates = certs\<rparr>, reqHeader = Map.empty\<rparr>"

definition demoExtractor :: "16 word \<Rightarrow> string \<Rightarrow> certExtractor" where
  "demoExtractor i fld =
     snd (CertExtractor_Init \<lparr>CertIndex = i, Target = ''subject'', Field = fld, HeaderKey = []\<rparr>
            ([] :: unit call list))"

definition demoFallbackSpec :: "(string \<times> string) list \<Rightarrow> fallbackSpec" where
  "demoFallbackSpec kvs = \<lparr>MockCode = 503, MockHeaders = map_of kvs, MockBody = ''hello''\<rparr>"

section \<open>Properties\<close>

lemmas status_defs = StatusOK_def StatusBadRequest_def StatusRequestEntityTooLarge_def
  StatusInternalServerError_def StatusServiceUnavailable_def StatusInsufficientStorage_def

lemmas demo_defs = demoEnv_def demoPipeline_def demoContext_def okResponse_def bytesReader_def
  visitIn_def demoUnmarshal_def demoObject_def List.map_filter_def

lemmas handle_defs = Handle_def readRequestBody_def newHTTPReq_def worker_def
  copyHTTPBody2Map_def formatResponse_def CopyN_def SetStatusCode_def AddTag_def SetHeader_def
  SetReader_def Header_Set_def resultFailed_def

subsection \<open>Body size limits\<close>

text \<open>
  C2.  The claim asks that a sub-target response body of exactly \<open>maxBodyBytes\<close>
  bytes be read successfully and that one of \<open>maxBodyBytes + 1\<close> bytes fail with 507,
  as the inbound body does with 413.  The inbound read asks \<open>CopyN\<close> for
  \<open>MaxBodyBytes + 1\<close> bytes; \<open>copyHTTPBody2Map\<close> asks for \<open>MaxBodyBytes\<close> only, so
  its test \<open>written > MaxBodyBytes\<close> never holds.  With a limit of 4, an inbound body
  of 4 bytes is accepted, while a sub-response body of 4 bytes and one of 5 bytes both
  end in the failed result with status 500, never 507.
\<close>

theorem C2_sub_response_limit_off_by_one:
  "readRequestBody \<lparr>MaxBodyBytes = 4, PartialSucceed = False, MergeResponse = True, Pipelines = []\<rparr>
     (demoContext ''abcd'') = Inr ''abcd''
   \<and> fst (copyHTTPBody2Map \<lparr>MaxBodyBytes = 4, PartialSucceed = False, MergeResponse = True, Pipelines = []\<rparr>
        (bytesReader ''abcd'') (demoContext []) Map.empty ''a'') = resultFailed
   \<and> statusCode (response (fst (snd (copyHTTPBody2Map
        \<lparr>MaxBodyBytes = 4, PartialSucceed = False, MergeResponse = True, Pipelines = []\<rparr>
        (bytesReader ''abcd'') (demoContext []) Map.empty ''a'')))) = StatusInternalServerError
   \<and> statusCode (response (fst (snd (copyHTTPBody2Map
        \<lparr>MaxBodyBytes = 4, PartialSucceed = False, MergeResponse = True, Pipelines = []\<rparr>
        (bytesReader ''abcde'') (demoContext []) Map.empty ''a'')))) = StatusInternalServerError
   \<and> StatusInternalServerError \<noteq> StatusInsufficientStorage"
  by (simp add: handle_defs demo_defs status_defs)

text \<open>
  C3.  The claim asks that \<open>maxBodyBytes\<close> range over [0, 10485760] and that with the
  value 0 no body is read and no body error arises, for the inbound request or for any
  sub-target response.  The schema tag stops at 102400, so 10485760 is rejected; and
  with the value 0 the inbound body is skipped by the guard \<open>MaxBodyBytes > 0\<close>, but
  \<open>copyHTTPBody2Map\<close> has no such guard: \<open>CopyN\<close> of 0 bytes returns no error, which is
  not \<open>EOF\<close>, and \<open>Handle\<close> fails with status 500 on the first successful sub-response.
\<close>

theorem C3_zero_limit_fails_on_sub_response:
  "\<not> validMaxBodyBytes 10485760
   \<and> Handle (demoEnv [''a'' \<mapsto> okResponse ''x1''] [''a''])
        \<lparr>MaxBodyBytes = 0, PartialSucceed = True, MergeResponse = True,
         Pipelines = [demoPipeline ''a'']\<rparr> (demoContext ''in'')
      = (resultFailed,
         SetStatusCode StatusInternalServerError
           (AddTag (ReadResponseBodyFailed None) (demoContext ''in'')))"
  by (simp add: handle_defs demo_defs status_defs validMaxBodyBytes_def
      MaxBodyBytes_minimum_def MaxBodyBytes_maximum_def)

subsection \<open>Lifecycle\<close>

text \<open>
  C6.  For both filter kinds, every specification, every previous generation and every
  trace, the calls that \<open>Inherit\<close> adds to the trace are one \<open>Close\<close> of the previous
  generation followed by the initialisation with the new specification: \<open>Close\<close> is
  called exactly once, and before \<open>Init\<close>.  For the aggregator this holds also when
  \<open>Init\<close> panics for want of its controller.
\<close>

theorem C6_inherit_closes_previous_once_before_init:
  "fst (APIAggregator_Inherit sysctl sp prev tr) = tr @ [CloseCall prev, InitCall (AASpec sp)]
   \<and> fst (CertExtractor_Inherit csp prev tr) = tr @ [CloseCall prev, InitCall (CESpec csp)]"
  by (simp add: APIAggregator_Inherit_def APIAggregator_Init_def CertExtractor_Inherit_def
      CertExtractor_Init_def Close_def Let_def split: option.split entity.split)

subsection \<open>Workers and slots\<close>

lemma worker_Some_iff:
  "worker E name req = Some rsp \<longleftrightarrow>
     (\<exists>handler. GetHTTPPipeline E name = Some handler \<and> handler req = rsp
        \<and> statusCode rsp = StatusOK)"
  by (auto simp: worker_def Let_def split: option.splits)

lemma dispatch_Inr:
  "dispatch E buff ps ctx = Inr (slots, ctx') \<Longrightarrow>
   length slots = length ps \<and> response ctx' = response ctx \<and> tags ctx' = tags ctx"
proof (induction ps arbitrary: ctx slots)
  case Nil
  then show ?case by simp
next
  case (Cons p ps)
  obtain rq c where n: "newHTTPReq E ctx p buff = (rq, c)" by (cases "newHTTPReq E ctx p buff")
  then have c: "response c = response ctx \<and> tags c = tags ctx"
    by (auto simp: newHTTPReq_def Let_def)
  from Cons.prems n obtain req where rq: "rq = Some req" by (cases rq) auto
  from Cons.prems n rq obtain sl where d: "dispatch E buff ps c = Inr (sl, ctx')"
    and s: "slots = worker E (Name p) req # sl"
    by (auto split: sum.splits)
  from Cons.IH [OF d] c s show ?case by simp
qed

lemma dispatch_slots:
  "dispatch E buff ps ctx = Inr (slots, ctx') \<Longrightarrow> i < length ps \<Longrightarrow>
   \<exists>c req. fst (newHTTPReq E c (ps ! i) buff) = Some req
     \<and> slots ! i = worker E (Name (ps ! i)) req"
proof (induction ps arbitrary: ctx slots i)
  case Nil
  then show ?case by simp
next
  case (Cons p ps)
  obtain rq c where n: "newHTTPReq E ctx p buff = (rq, c)" by (cases "newHTTPReq E ctx p buff")
  from Cons.prems(1) n obtain req where rq: "rq = Some req" by (cases rq) auto
  from Cons.prems(1) n rq obtain sl where d: "dispatch E buff ps c = Inr (sl, ctx')"
    and s: "slots = worker E (Name p) req # sl"
    by (auto split: sum.splits)
  show ?case
  proof (cases i)
    case 0
    have "fst (newHTTPReq E ctx p buff) = Some req" using n rq by simp
    with s 0 show ?thesis by auto
  next
    case (Suc k)
    with Cons.prems(2) have "k < length ps" by simp
    from Cons.IH [OF d this] s Suc show ?thesis by simp
  qed
qed

text \<open>
  C5.  A worker leaves a response in its slot exactly when the pipeline name resolves
  to a handler and the response of that handler has status 200; any other status and an
  unknown name leave the slot empty.  When the dispatch loop completes there is one slot
  per pipeline, and each slot is the result of the worker of its own pipeline on a
  request derived for that pipeline: no slot depends on what another worker did.
\<close>

theorem C5_slot_filled_iff_status_200:
  "(worker E name req = Some rsp \<longleftrightarrow>
      (\<exists>handler. GetHTTPPipeline E name = Some handler \<and> handler req = rsp
         \<and> statusCode rsp = StatusOK))
   \<and> (dispatch E buff ps ctx = Inr (slots, ctx') \<longrightarrow>
        length slots = length ps
        \<and> (\<forall>i<length ps. \<exists>c req. fst (newHTTPReq E c (ps ! i) buff) = Some req
              \<and> slots ! i = worker E (Name (ps ! i)) req))"
proof (intro conjI impI allI)
  show "worker E name req = Some rsp \<longleftrightarrow>
      (\<exists>handler. GetHTTPPipeline E name = Some handler \<and> handler req = rsp
         \<and> statusCode rsp = StatusOK)"
    by (rule worker_Some_iff)
next
  assume "dispatch E buff ps ctx = Inr (slots, ctx')"
  then show "length slots = length ps" by (simp add: dispatch_Inr)
next
  fix i
  assume "dispatch E buff ps ctx = Inr (slots, ctx')" and "i < length ps"
  then show "\<exists>c req. fst (newHTTPReq E c (ps ! i) buff) = Some req
              \<and> slots ! i = worker E (Name (ps ! i)) req"
    by (rule dispatch_slots)
qed

text \<open>
  Witness for C5: three pipelines, the first answering 200, the second 404, the third
  unknown; only the first slot is filled.
\<close>

theorem C5_slot_filled_iff_status_200_witness:
  "dispatch (demoEnv [''a'' \<mapsto> okResponse ''x1'', ''b'' \<mapsto> notFound ''y2''] []) ''in''
     (map demoPipeline [''a'', ''b'', ''c'']) (demoContext ''in'')
     = Inr ([Some (okResponse ''x1''), None, None], demoContext ''in'')
   \<and> length [Some (okResponse ''x1''), None, None] = length (map demoPipeline [''a'', ''b'', ''c''])
   \<and> (\<exists>c req. fst (newHTTPReq (demoEnv [''a'' \<mapsto> okResponse ''x1'', ''b'' \<mapsto> notFound ''y2''] [])
                        c (map demoPipeline [''a'', ''b'', ''c''] ! 0) ''in'') = Some req
           \<and> [Some (okResponse ''x1''), None, None] ! 0
               = worker (demoEnv [''a'' \<mapsto> okResponse ''x1'', ''b'' \<mapsto> notFound ''y2''] [])
                   (Name (map demoPipeline [''a'', ''b'', ''c''] ! 0)) req)
   \<and> (\<exists>c req. fst (newHTTPReq (demoEnv [''a'' \<mapsto> okResponse ''x1'', ''b'' \<mapsto> notFound ''y2''] [])
                        c (map demoPipeline [''a'', ''b'', ''c''] ! 1) ''in'') = Some req
           \<and> [Some (okResponse ''x1''), None, None] ! 1
               = worker (demoEnv [''a'' \<mapsto> okResponse ''x1'', ''b'' \<mapsto> notFound ''y2''] [])
                   (Name (map demoPipeline [''a'', ''b'', ''c''] ! 1)) req)
   \<and> (\<exists>c req. fst (newHTTPReq (demoEnv [''a'' \<mapsto> okResponse ''x1'', ''b'' \<mapsto> notFound ''y2''] [])
                        c (map demoPipeline [''a'', ''b'', ''c''] ! 2) ''in'') = Some req
           \<and> [Some (okResponse ''x1''), None, None] ! 2
               = worker (demoEnv [''a'' \<mapsto> okResponse ''x1'', ''b'' \<mapsto> notFound ''y2''] [])
                   (Name (map demoPipeline [''a'', ''b'', ''c''] ! 2)) req)"
proof -
  have d: "dispatch (demoEnv [''a'' \<mapsto> okResponse ''x1'', ''b'' \<mapsto> notFound ''y2''] []) ''in''
     (map demoPipeline [''a'', ''b'', ''c'']) (demoContext ''in'')
     = Inr ([Some (okResponse ''x1''), None, None], demoContext ''in'')"
    by (simp add: handle_defs demo_defs status_defs notFound_def)
  have n: "0 < length (map demoPipeline [''a'', ''b'', ''c''])"
    "1 < length (map demoPipeline [''a'', ''b'', ''c''])"
    "2 < length (map demoPipeline [''a'', ''b'', ''c''])" by simp_all
  note th = C5_slot_filled_iff_status_200 [THEN conjunct2, THEN mp, OF d]
  note l = th [THEN conjunct1]
  note a = th [THEN conjunct2, rule_format]
  from d l a [OF n(1)] a [OF n(2)] a [OF n(3)] show ?thesis by blast
qed

subsection \<open>The loop over the slots\<close>

lemma copyHTTPBody2Map_readable:
  "readable S rd \<Longrightarrow> copyHTTPBody2Map S rd ctx data name = ([], ctx, data(name \<mapsto> content rd))"
  by (auto simp: readable_def copyHTTPBody2Map_def CopyN_def)

lemma copyHTTPBody2Map_ok_iff:
  "fst (copyHTTPBody2Map S rd ctx data name) = [] \<longleftrightarrow> readable S rd"
  by (auto simp: readable_def copyHTTPBody2Map_def CopyN_def resultFailed_def)

lemma map_add_stored:
  "data(k \<mapsto> v) ++ map_of (rev sb) = data ++ map_of (rev ((k, v) # sb))"
  by (simp add: fun_eq_iff map_add_def split: option.split)

lemma collect_ok:
  "list_all (slotOK S) (map snd xs) \<Longrightarrow>
   collect canon S xs data ctx = Inr (data ++ map_of (rev (storedBodies xs)), ctx)"
proof (induction xs arbitrary: data)
  case Nil
  then show ?case by simp
next
  case (Cons x xs)
  obtain p slot where x: "x = (p, slot)" by (cases x)
  from Cons.prems have ok: "slotOK S slot" and rest: "list_all (slotOK S) (map snd xs)"
    by (simp_all add: x)
  show ?case
  proof (cases slot)
    case None
    with ok have "PartialSucceed S" by (simp add: slotOK_def)
    with None show ?thesis using Cons.IH [OF rest] by (simp add: x)
  next
    case (Some r)
    show ?thesis
    proof (cases "payload r")
      case None
      with Some show ?thesis using Cons.IH [OF rest] by (simp add: x)
    next
      case (Some rd)
      with ok \<open>slot = Some r\<close> have "readable S rd" by (simp add: slotOK_def)
      then have "collect canon S (x # xs) data ctx =
                 collect canon S xs (data(Name p \<mapsto> content rd)) ctx"
        using Some \<open>slot = Some r\<close> by (simp add: x copyHTTPBody2Map_readable)
      also have "\<dots> = Inr (data(Name p \<mapsto> content rd) ++ map_of (rev (storedBodies xs)), ctx)"
        by (rule Cons.IH [OF rest])
      also have "data(Name p \<mapsto> content rd) ++ map_of (rev (storedBodies xs)) =
                 data ++ map_of (rev ((Name p, content rd) # storedBodies xs))"
        by (rule map_add_stored)
      also have "(Name p, content rd) # storedBodies xs = storedBodies (x # xs)"
        using Some \<open>slot = Some r\<close> by (simp add: x)
      finally show ?thesis .
    qed
  qed
qed

lemma collect_Inr_slotOK:
  "collect canon S xs data ctx = Inr (data', ctx') \<Longrightarrow> list_all (slotOK S) (map snd xs)"
proof (induction xs arbitrary: data ctx)
  case Nil
  then show ?case by simp
next
  case (Cons x xs)
  obtain p slot where x: "x = (p, slot)" by (cases x)
  show ?case
  proof (cases slot)
    case None
    with Cons.prems have ps: "PartialSucceed S" and
      rec: "collect canon S xs data ctx = Inr (data', ctx')"
      by (auto simp: x split: if_splits)
    from ps None have "slotOK S slot" by (simp add: slotOK_def)
    with Cons.IH [OF rec] show ?thesis by (simp add: x)
  next
    case (Some r)
    show ?thesis
    proof (cases "payload r")
      case None
      with Some Cons.prems have rec: "collect canon S xs data ctx = Inr (data', ctx')"
        by (auto simp: x split: if_splits)
      from None Some have "slotOK S slot" by (simp add: slotOK_def)
      with Cons.IH [OF rec] show ?thesis by (simp add: x)
    next
      case (Some rd)
      obtain res c d where cp: "copyHTTPBody2Map S rd ctx data (Name p) = (res, c, d)"
        by (cases "copyHTTPBody2Map S rd ctx data (Name p)")
      with Cons.prems Some \<open>slot = Some r\<close> have res: "res = []" and
        rec: "collect canon S xs d c = Inr (data', ctx')"
        by (auto simp: x split: if_splits)
      from cp res have "readable S rd" using copyHTTPBody2Map_ok_iff [of S rd ctx data "Name p"]
        by simp
      with Some \<open>slot = Some r\<close> have "slotOK S slot" by (simp add: slotOK_def)
      with Cons.IH [OF rec] show ?thesis by (simp add: x)
    qed
  qed
qed

lemma collect_Inr:
  assumes "collect canon S xs data ctx = Inr (data', ctx')"
  shows "data' = data ++ map_of (rev (storedBodies xs)) \<and> ctx' = ctx"
  using collect_ok [OF collect_Inr_slotOK [OF assms], of canon data ctx] assms by simp

lemma collect_first_empty:
  assumes "\<not> PartialSucceed S" and "list_all (slotOK S) (map snd pre)"
  shows "collect canon S (pre @ (p, None) # post) data ctx =
         Inl (resultFailed, SetStatusCode StatusServiceUnavailable
               (SetHeader canon ''X-EG-Aggregator'' (''failed-in-'' @ Name p) ctx))"
  using assms(2)
proof (induction pre arbitrary: data)
  case Nil
  then show ?case using assms(1) by simp
next
  case (Cons x xs)
  obtain q slot where x: "x = (q, slot)" by (cases x)
  from Cons.prems have ok: "slotOK S slot" and rest: "list_all (slotOK S) (map snd xs)"
    by (simp_all add: x)
  from ok assms(1) obtain r where slot: "slot = Some r" by (cases slot) (auto simp: slotOK_def)
  show ?case
  proof (cases "payload r")
    case None
    with slot show ?thesis using Cons.IH [OF rest] by (simp add: x)
  next
    case (Some rd)
    with ok slot have "readable S rd" by (simp add: slotOK_def)
    then show ?thesis using Cons.IH [OF rest] Some slot
      by (simp add: x copyHTTPBody2Map_readable)
  qed
qed

lemma collect_slot_empty:
  assumes np: "\<not> PartialSucceed S" and len: "length slots = length ps" and i: "i < length slots"
    and e: "slots ! i = None" and ok: "\<forall>j<i. slotOK S (slots ! j)"
  shows "collect canon S (zip ps slots) data ctx =
         Inl (resultFailed, SetStatusCode StatusServiceUnavailable
               (SetHeader canon ''X-EG-Aggregator'' (''failed-in-'' @ Name (ps ! i)) ctx))"
proof -
  let ?xs = "zip ps slots"
  have il: "i < length ?xs" using i len by simp
  have xi: "?xs ! i = (ps ! i, None)" using il e by simp
  have split: "?xs = take i ?xs @ (ps ! i, None) # drop (Suc i) ?xs"
    using id_take_nth_drop [OF il] xi by simp
  have "map snd (take i ?xs) = take i slots" using len by (simp add: take_map [symmetric])
  moreover have "list_all (slotOK S) (take i slots)"
    using ok i by (simp add: list_all_length)
  ultimately have pre: "list_all (slotOK S) (map snd (take i ?xs))" by simp
  show ?thesis
    using collect_first_empty [OF np pre, of canon "ps ! i" "drop (Suc i) ?xs" data ctx] split
    by simp
qed

lemma storedBodies_filter:
  "storedBodies (filter (\<lambda>x. snd x \<noteq> None) xs) = storedBodies xs"
  by (induction xs rule: storedBodies.induct) (simp_all split: option.split)

lemma collected_eq: "collected ps slots = map_of (rev (storedBodies (zip ps slots)))"
  by (simp only: collected_def storedBodies_filter)

lemma range_of_set:
  "range_of data kvs \<Longrightarrow> ((n, b) \<in> set kvs \<longleftrightarrow> data n = Some b)"
  by (auto simp: range_of_def)

lemma filter_key_distinct:
  "distinct (map fst kvs) \<Longrightarrow> length (filter (\<lambda>kv. fst kv = n) kvs) \<le> 1"
proof (induction kvs)
  case Nil
  then show ?case by simp
next
  case (Cons kv kvs)
  show ?case
  proof (cases "fst kv = n")
    case True
    with Cons.prems have "n \<notin> fst ` set kvs" by auto
    then have "filter (\<lambda>kv. fst kv = n) kvs = []" by (auto simp: filter_empty_conv)
    with True show ?thesis by simp
  next
    case False
    with Cons show ?thesis by simp
  qed
qed

lemma map_of_rev_last:
  assumes "stored = pre @ (n, b) # post" and "n \<notin> fst ` set post"
  shows "map_of (rev stored) n = Some b"
proof -
  have "map_of (rev post) n = None" using assms(2) by (simp add: map_of_eq_None_iff)
  then show ?thesis by (simp add: assms(1) map_add_def)
qed

text \<open>
  C10.  The collected bodies are keyed by sub-target name in one map: when the loop over
  the slots completes, the map holds for every name the body stored last under it, so an
  enumeration of the map has at most one entry for a name; when several non-empty slots
  share the name \<open>n\<close>, the entry is the body of the last of them.
\<close>

theorem C10_same_name_keeps_last_body:
  assumes "collect canon S (zip ps slots) Map.empty ctx = Inr (data, ctx')"
    and "range_of data kvs"
  shows "data = map_of (rev (storedBodies (zip ps slots)))
    \<and> length (filter (\<lambda>kv. fst kv = n) kvs) \<le> 1
    \<and> (\<forall>pre b post. storedBodies (zip ps slots) = pre @ (n, b) # post \<and> n \<notin> fst ` set post
          \<longrightarrow> data n = Some b \<and> filter (\<lambda>kv. fst kv = n) kvs = [(n, b)])"
proof -
  have d: "data = map_of (rev (storedBodies (zip ps slots)))"
    using collect_Inr [OF assms(1)] by simp
  from assms(2) have dist: "distinct (map fst kvs)" and m: "map_of kvs = data"
    by (simp_all add: range_of_def)
  have one: "length (filter (\<lambda>kv. fst kv = n) kvs) \<le> 1"
    by (rule filter_key_distinct [OF dist])
  have last: "data n = Some b \<and> filter (\<lambda>kv. fst kv = n) kvs = [(n, b)]"
    if st: "storedBodies (zip ps slots) = pre @ (n, b) # post" and nn: "n \<notin> fst ` set post"
    for pre b post
  proof -
    have dn: "data n = Some b" using map_of_rev_last [OF st nn] d by simp
    with m have "map_of kvs n = Some b" by simp
    then have mem: "(n, b) \<in> set kvs" by (rule map_of_SomeD)
    then have "(n, b) \<in> set (filter (\<lambda>kv. fst kv = n) kvs)" by simp
    moreover have "\<forall>kv \<in> set (filter (\<lambda>kv. fst kv = n) kvs). kv = (n, b)"
    proof
      fix kv assume "kv \<in> set (filter (\<lambda>kv. fst kv = n) kvs)"
      then have k: "kv \<in> set kvs" and f: "fst kv = n" by simp_all
      have "kv = (n, snd kv)" using f by (simp add: prod_eq_iff)
      with k have "(n, snd kv) \<in> set kvs" by simp
      with dist have "map_of kvs n = Some (snd kv)" by simp
      with \<open>map_of kvs n = Some b\<close> have "snd kv = b" by simp
      with f show "kv = (n, b)" by (simp add: prod_eq_iff)
    qed
    ultimately have "filter (\<lambda>kv. fst kv = n) kvs = [(n, b)]"
      using one by (cases "filter (\<lambda>kv. fst kv = n) kvs") (auto split: if_splits)
    with dn show ?thesis by simp
  qed
  show ?thesis
  proof (intro conjI allI impI)
    show "data = map_of (rev (storedBodies (zip ps slots)))" by (rule d)
    show "length (filter (\<lambda>kv. fst kv = n) kvs) \<le> 1" by (rule one)
  next
    fix pre b post
    assume a: "storedBodies (zip ps slots) = pre @ (n, b) # post \<and> n \<notin> fst ` set post"
    then show "data n = Some b" using last by blast
    from a show "filter (\<lambda>kv. fst kv = n) kvs = [(n, b)]" using last by blast
  qed
qed

text \<open>
  Witness for C10: two pipelines named \<open>a\<close>, both with a non-empty slot; only the
  second body is left in the map.
\<close>

theorem C10_same_name_keeps_last_body_witness:
  "collect (\<lambda>k. k) (demoSpec 10 False True [''a'', ''a''])
     (zip (map demoPipeline [''a'', ''a'']) [Some (okResponse ''x1''), Some (okResponse ''y2'')])
     Map.empty (demoContext ''in'')
     = Inr ([''a'' \<mapsto> ''y2''], demoContext ''in'')
   \<and> range_of [''a'' \<mapsto> ''y2''] [(''a'', ''y2'')]
   \<and> storedBodies (zip (map demoPipeline [''a'', ''a''])
        [Some (okResponse ''x1''), Some (okResponse ''y2'')]) = [(''a'', ''x1'')] @ (''a'', ''y2'') # []
   \<and> [''a'' \<mapsto> ''y2'']
      = map_of (rev (storedBodies (zip (map demoPipeline [''a'', ''a''])
          [Some (okResponse ''x1''), Some (okResponse ''y2'')])))
   \<and> length (filter (\<lambda>kv. fst kv = ''a'') [(''a'', ''y2'')]) \<le> 1
   \<and> [''a'' \<mapsto> ''y2''] ''a'' = Some ''y2''
   \<and> filter (\<lambda>kv. fst kv = ''a'') [(''a'', ''y2'')] = [(''a'', ''y2'')]"
proof -
  have c: "collect (\<lambda>k. k) (demoSpec 10 False True [''a'', ''a''])
     (zip (map demoPipeline [''a'', ''a'']) [Some (okResponse ''x1''), Some (okResponse ''y2'')])
     Map.empty (demoContext ''in'')
     = Inr ([''a'' \<mapsto> ''y2''], demoContext ''in'')"
    by (simp add: handle_defs demo_defs demoSpec_def)
  have r: "range_of [''a'' \<mapsto> ''y2''] [(''a'', ''y2'')]" by (simp add: range_of_def)
  have s: "storedBodies (zip (map demoPipeline [''a'', ''a''])
        [Some (okResponse ''x1''), Some (okResponse ''y2'')]) = [(''a'', ''x1'')] @ (''a'', ''y2'') # []
        \<and> ''a'' \<notin> fst ` set []"
    by (simp add: demo_defs)
  note th = C10_same_name_keeps_last_body [OF c r, of "''a''"]
  from th have 1: "[''a'' \<mapsto> ''y2'']
      = map_of (rev (storedBodies (zip (map demoPipeline [''a'', ''a''])
          [Some (okResponse ''x1''), Some (okResponse ''y2'')])))"
    and 2: "length (filter (\<lambda>kv. fst kv = ''a'') [(''a'', ''y2'')]) \<le> 1" by blast+
  from th s have 3: "[''a'' \<mapsto> ''y2''] ''a'' = Some ''y2''
      \<and> filter (\<lambda>kv. fst kv = ''a'') [(''a'', ''y2'')] = [(''a'', ''y2'')]" by blast
  from c r s 1 2 3 show ?thesis by blast
qed

subsection \<open>The formatted output\<close>

lemma unmarshalInto_decodes:
  "list_all2 (decodesAs E) bs objs \<Longrightarrow>
   unmarshalInto (Unmarshal E) bs acc = Inr (foldl (++) acc objs)"
  by (induction bs objs arbitrary: acc rule: list_all2_induct) (simp_all add: decodesAs_def)

lemma unmarshalEach_decodes:
  "list_all2 (decodesAs E) bs objs \<Longrightarrow>
   unmarshalEach (Unmarshal E) bs acc = Inr (acc @ objs)"
  by (induction bs objs arbitrary: acc rule: list_all2_induct) (simp_all add: decodesAs_def)

lemma formatResponse_decodes:
  assumes "list_all2 (decodesAs E) (map snd kvs) objs"
    and "Marshal E (if MergeResponse S then JObj (foldl (++) Map.empty objs) else JArr objs)
         = Some out"
  shows "formatResponse E S ctx kvs = ([], SetReader out ctx)"
  using assms(2) unmarshalInto_decodes [OF assms(1), of Map.empty]
    unmarshalEach_decodes [OF assms(1), of "[]"]
  by (simp add: formatResponse_def split: if_splits)

lemma demo_decodes:
  "decodesAs (demoEnv table names) [k, v] [[k] \<mapsto> [v]]"
  by (simp add: decodesAs_def demoEnv_def demoUnmarshal_def)

lemma list_all2_ex:
  "\<forall>x\<in>set xs. \<exists>y. P x y \<Longrightarrow> \<exists>ys. list_all2 P xs ys"
proof (induction xs)
  case Nil
  then show ?case by simp
next
  case (Cons x xs)
  then obtain y ys where "P x y" and "list_all2 P xs ys" by auto
  then have "list_all2 P (x # xs) (y # ys)" by simp
  then show ?case by blast
qed

lemma visited_decode:
  assumes "range_of data kvs" and "\<forall>n b. data n = Some b \<longrightarrow> (\<exists>obj. decodesAs E b obj)"
  shows "\<exists>objs. list_all2 (decodesAs E) (map snd kvs) objs"
proof (rule list_all2_ex, rule ballI)
  fix b assume "b \<in> set (map snd kvs)"
  then obtain n where "(n, b) \<in> set kvs" by auto
  with range_of_set [OF assms(1)] have "data n = Some b" by simp
  with assms(2) show "\<exists>obj. decodesAs E b obj" by blast
qed

text \<open>
  C1, as amended.  When the inbound body is read, the dispatch completes and the loop
  over the slots leaves the map \<open>data\<close>, the entries that \<open>formatResponse\<close>
  visits are those of \<open>data\<close>, that is, for every name the body stored last under
  it; if the visited bodies decode as the objects \<open>objs\<close>, in the order of the
  visit, the payload of the response becomes the serialisation of their left-to-right
  shallow merge in merge mode and of the array \<open>objs\<close> in array mode, and \<open>Handle\<close>
  returns the success result.  The order is that of the enumeration of the map, not
  that of the declaration of the sub-targets.
\<close>

theorem C1_output_follows_range_order:
  assumes "readRequestBody S ctx = Inr buff"
    and "dispatch E buff (Pipelines S) ctx = Inr (slots, ctx1)"
    and "collect (CanonicalKey E) S (zip (Pipelines S) slots) Map.empty ctx1 = Inr (data, ctx2)"
    and "range_of data (rangeOrder E data)"
    and "list_all2 (decodesAs E) (map snd (rangeOrder E data)) objs"
    and "Marshal E (if MergeResponse S then JObj (foldl (++) Map.empty objs) else JArr objs)
         = Some out"
  shows "Handle E S ctx = ([], SetReader out ctx1)
    \<and> (\<forall>n b. (n, b) \<in> set (rangeOrder E data)
          \<longleftrightarrow> map_of (rev (storedBodies (zip (Pipelines S) slots))) n = Some b)"
proof -
  from collect_Inr [OF assms(3)] have d: "data = map_of (rev (storedBodies (zip (Pipelines S) slots)))"
    and c: "ctx2 = ctx1" by simp_all
  have "Handle E S ctx = formatResponse E S ctx2 (rangeOrder E data)"
    by (simp add: Handle_def assms(1,2,3))
  also have "\<dots> = ([], SetReader out ctx2)"
    by (rule formatResponse_decodes [OF assms(5,6)])
  finally have h: "Handle E S ctx = ([], SetReader out ctx1)" by (simp add: c)
  have "(n, b) \<in> set (rangeOrder E data)
          \<longleftrightarrow> map_of (rev (storedBodies (zip (Pipelines S) slots))) n = Some b" for n b
    using range_of_set [OF assms(4), of n b] d by simp
  with h show ?thesis by simp
qed

text \<open>
  Witness for C1: sub-targets \<open>a\<close> and \<open>b\<close> answering the objects with the keys
  \<open>x\<close> and \<open>y\<close>, visited as \<open>b\<close>, \<open>a\<close>, in merge mode.
\<close>

theorem C1_output_follows_range_order_witness:
  "readRequestBody (demoSpec 10 False True [''a'', ''b'']) (demoContext ''in'') = Inr ''in''
   \<and> dispatch (demoEnv [''a'' \<mapsto> okResponse ''x1'', ''b'' \<mapsto> okResponse ''y2''] [''b'', ''a''])
        ''in'' (Pipelines (demoSpec 10 False True [''a'', ''b''])) (demoContext ''in'')
      = Inr ([Some (okResponse ''x1''), Some (okResponse ''y2'')], demoContext ''in'')
   \<and> range_of [''a'' \<mapsto> ''x1'', ''b'' \<mapsto> ''y2''] [(''b'', ''y2''), (''a'', ''x1'')]
   \<and> Handle (demoEnv [''a'' \<mapsto> okResponse ''x1'', ''b'' \<mapsto> okResponse ''y2''] [''b'', ''a''])
        (demoSpec 10 False True [''a'', ''b'']) (demoContext ''in'')
      = ([], SetReader ''{x:1;y:2;}'' (demoContext ''in''))"
proof -
  let ?E = "demoEnv [''a'' \<mapsto> okResponse ''x1'', ''b'' \<mapsto> okResponse ''y2''] [''b'', ''a'']"
  let ?S = "demoSpec 10 False True [''a'', ''b'']"
  let ?data = "[''a'' \<mapsto> ''x1'', ''b'' \<mapsto> ''y2'']"
  have h1: "readRequestBody ?S (demoContext ''in'') = Inr ''in''"
    by (simp add: handle_defs demo_defs demoSpec_def)
  have h2: "dispatch ?E ''in'' (Pipelines ?S) (demoContext ''in'')
            = Inr ([Some (okResponse ''x1''), Some (okResponse ''y2'')], demoContext ''in'')"
    by (simp add: handle_defs demo_defs status_defs demoSpec_def)
  have h3: "collect (CanonicalKey ?E) ?S
              (zip (Pipelines ?S) [Some (okResponse ''x1''), Some (okResponse ''y2'')])
              Map.empty (demoContext ''in'') = Inr (?data, demoContext ''in'')"
    by (simp add: handle_defs demo_defs status_defs demoSpec_def)
  have r: "rangeOrder ?E ?data = [(''b'', ''y2''), (''a'', ''x1'')]"
    by (simp add: demo_defs)
  have h4: "range_of ?data (rangeOrder ?E ?data)"
    unfolding r by (simp add: range_of_def fun_upd_twist)
  have h5: "list_all2 (decodesAs ?E) (map snd (rangeOrder ?E ?data))
              [[''y'' \<mapsto> ''2''], [''x'' \<mapsto> ''1'']]"
    unfolding r using demo_decodes [of _ _ "CHR ''y''" "CHR ''2''"]
      demo_decodes [of _ _ "CHR ''x''" "CHR ''1''"] by simp
  have h6: "Marshal ?E (if MergeResponse ?S
              then JObj (foldl (++) Map.empty [[''y'' \<mapsto> ''2''], [''x'' \<mapsto> ''1'']])
              else JArr [[''y'' \<mapsto> ''2''], [''x'' \<mapsto> ''1'']]) = Some ''{x:1;y:2;}''"
    by (simp add: demo_defs demoSpec_def)
  from C1_output_follows_range_order [OF h1 h2 h3 h4 h5 h6] h1 h2 h4 r
  show ?thesis by simp
qed

text \<open>
  Counterexample to C1 as stated: sub-targets \<open>a\<close> and \<open>b\<close>, declared in this
  order, both answering an object with the key \<open>x\<close>, with values 1 and 2.  When
  the map of bodies is enumerated as \<open>b\<close>, \<open>a\<close>, merge mode yields the value 1
  where the merge in declaration order has 2, and array mode yields the two objects in
  the reverse of the declaration order.
\<close>

theorem C1_declaration_order_counterexample:
  "range_of [''a'' \<mapsto> ''x1'', ''b'' \<mapsto> ''x2'']
     (rangeOrder (demoEnv [''a'' \<mapsto> okResponse ''x1'', ''b'' \<mapsto> okResponse ''x2''] [''b'', ''a''])
        [''a'' \<mapsto> ''x1'', ''b'' \<mapsto> ''x2''])
   \<and> Handle (demoEnv [''a'' \<mapsto> okResponse ''x1'', ''b'' \<mapsto> okResponse ''x2''] [''b'', ''a''])
        (demoSpec 10 False True [''a'', ''b'']) (demoContext ''in'')
      = ([], SetReader ''{x:1;}'' (demoContext ''in''))
   \<and> demoMarshal (JObj (foldl (++) Map.empty [[''x'' \<mapsto> ''1''], [''x'' \<mapsto> ''2'']]))
      = Some ''{x:2;}''
   \<and> Handle (demoEnv [''a'' \<mapsto> okResponse ''x1'', ''b'' \<mapsto> okResponse ''x2''] [''b'', ''a''])
        (demoSpec 10 False False [''a'', ''b'']) (demoContext ''in'')
      = ([], SetReader ''[{x:2;}{x:1;}]'' (demoContext ''in''))
   \<and> demoMarshal (JArr [[''x'' \<mapsto> ''1''], [''x'' \<mapsto> ''2'']]) = Some ''[{x:1;}{x:2;}]''"
  by (simp add: handle_defs demo_defs status_defs demoSpec_def range_of_def fun_upd_twist)

subsection \<open>Empty slots\<close>

text \<open>
  C4, as amended.  Let the inbound body be read, the dispatch complete and the slot
  \<open>i\<close> be empty.  If partial success is off and every slot before \<open>i\<close> is
  non-empty and read without error, \<open>Handle\<close> returns the failed result with status
  503, the header \<open>X-EG-Aggregator\<close> is \<open>failed-in-\<close> followed by the name of
  sub-target \<open>i\<close>, and the payload of the response is the one before the call.  If
  partial success is on, every non-empty slot is read without error, every collected
  body decodes as a JSON object and the encoder does not fail, \<open>Handle\<close> returns the
  success result and its output is formatted from the bodies of the non-empty slots
  alone.
\<close>

theorem C4_empty_slot:
  assumes "readRequestBody S ctx = Inr buff"
    and "dispatch E buff (Pipelines S) ctx = Inr (slots, ctx1)"
    and "i < length slots" and "slots ! i = None"
  shows "(\<not> PartialSucceed S \<and> (\<forall>j<i. slotOK S (slots ! j)) \<longrightarrow>
            fst (Handle E S ctx) = resultFailed
          \<and> statusCode (response (snd (Handle E S ctx))) = StatusServiceUnavailable
          \<and> Header_Get (CanonicalKey E) ''X-EG-Aggregator'' (header (response (snd (Handle E S ctx))))
              = ''failed-in-'' @ Name (Pipelines S ! i)
          \<and> payload (response (snd (Handle E S ctx))) = payload (response ctx))
       \<and> (PartialSucceed S \<and> list_all (slotOK S) slots
            \<and> range_of (collected (Pipelines S) slots)
                 (rangeOrder E (collected (Pipelines S) slots))
            \<and> (\<forall>n b. collected (Pipelines S) slots n = Some b \<longrightarrow> (\<exists>obj. decodesAs E b obj))
            \<and> (\<forall>v. Marshal E v \<noteq> None) \<longrightarrow>
            fst (Handle E S ctx) = []
          \<and> Handle E S ctx
              = formatResponse E S ctx1 (rangeOrder E (collected (Pipelines S) slots)))"
proof -
  have len: "length slots = length (Pipelines S)"
    and resp: "response ctx1 = response ctx"
    using dispatch_Inr [OF assms(2)] by simp_all
  have part1: "fst (Handle E S ctx) = resultFailed
          \<and> statusCode (response (snd (Handle E S ctx))) = StatusServiceUnavailable
          \<and> Header_Get (CanonicalKey E) ''X-EG-Aggregator'' (header (response (snd (Handle E S ctx))))
              = ''failed-in-'' @ Name (Pipelines S ! i)
          \<and> payload (response (snd (Handle E S ctx))) = payload (response ctx)"
    if a: "\<not> PartialSucceed S \<and> (\<forall>j<i. slotOK S (slots ! j))"
  proof -
    have c: "collect (CanonicalKey E) S (zip (Pipelines S) slots) Map.empty ctx1 =
         Inl (resultFailed, SetStatusCode StatusServiceUnavailable
               (SetHeader (CanonicalKey E) ''X-EG-Aggregator''
                  (''failed-in-'' @ Name (Pipelines S ! i)) ctx1))"
      using a collect_slot_empty [OF _ len assms(3,4)] by blast
    have h: "Handle E S ctx = (resultFailed, SetStatusCode StatusServiceUnavailable
               (SetHeader (CanonicalKey E) ''X-EG-Aggregator''
                  (''failed-in-'' @ Name (Pipelines S ! i)) ctx1))"
      by (simp add: Handle_def assms(1,2) c)
    show ?thesis
      by (simp add: h SetStatusCode_def SetHeader_def Header_Get_def Header_Set_def resp)
  qed
  have part2: "fst (Handle E S ctx) = []
          \<and> Handle E S ctx
              = formatResponse E S ctx1 (rangeOrder E (collected (Pipelines S) slots))"
    if b: "PartialSucceed S \<and> list_all (slotOK S) slots
            \<and> range_of (collected (Pipelines S) slots)
                 (rangeOrder E (collected (Pipelines S) slots))
            \<and> (\<forall>n b. collected (Pipelines S) slots n = Some b \<longrightarrow> (\<exists>obj. decodesAs E b obj))
            \<and> (\<forall>v. Marshal E v \<noteq> None)"
  proof -
    let ?data = "collected (Pipelines S) slots"
    have "map snd (zip (Pipelines S) slots) = slots" using len by simp
    with b have "list_all (slotOK S) (map snd (zip (Pipelines S) slots))" by simp
    from collect_ok [OF this, of "CanonicalKey E" Map.empty ctx1]
    have c: "collect (CanonicalKey E) S (zip (Pipelines S) slots) Map.empty ctx1 =
              Inr (?data, ctx1)"
      by (simp add: collected_eq)
    have h: "Handle E S ctx = formatResponse E S ctx1 (rangeOrder E ?data)"
      by (simp add: Handle_def assms(1,2) c)
    from b have r: "range_of ?data (rangeOrder E ?data)"
      and dec: "\<forall>n b. ?data n = Some b \<longrightarrow> (\<exists>obj. decodesAs E b obj)" by blast+
    from visited_decode [OF r dec] obtain objs
      where objs: "list_all2 (decodesAs E) (map snd (rangeOrder E ?data)) objs" by blast
    from b obtain out where out: "Marshal E (if MergeResponse S
        then JObj (foldl (++) Map.empty objs) else JArr objs) = Some out"
      by (meson not_Some_eq)
    have "formatResponse E S ctx1 (rangeOrder E ?data) = ([], SetReader out ctx1)"
      by (rule formatResponse_decodes [OF objs out])
    with h show ?thesis by simp
  qed
  from part1 part2 show ?thesis by blast
qed

text \<open>
  Witness for C4: sub-target \<open>a\<close> answers 200 and \<open>b\<close> answers 404, so the second
  slot is empty; once with partial success off, once with it on.
\<close>

theorem C4_empty_slot_witness:
  "readRequestBody (demoSpec 10 False True [''a'', ''b'']) (demoContext ''in'') = Inr ''in''
   \<and> dispatch (demoEnv [''a'' \<mapsto> okResponse ''x1'', ''b'' \<mapsto> notFound ''y2''] [''b'', ''a''])
        ''in'' (map demoPipeline [''a'', ''b'']) (demoContext ''in'')
      = Inr ([Some (okResponse ''x1''), None], demoContext ''in'')
   \<and> slotOK (demoSpec 10 False True [''a'', ''b'']) (Some (okResponse ''x1''))
   \<and> fst (Handle (demoEnv [''a'' \<mapsto> okResponse ''x1'', ''b'' \<mapsto> notFound ''y2''] [''b'', ''a''])
        (demoSpec 10 False True [''a'', ''b'']) (demoContext ''in'')) = resultFailed
   \<and> statusCode (response (snd (Handle
        (demoEnv [''a'' \<mapsto> okResponse ''x1'', ''b'' \<mapsto> notFound ''y2''] [''b'', ''a''])
        (demoSpec 10 False True [''a'', ''b'']) (demoContext ''in'')))) = 503
   \<and> Header_Get (\<lambda>k. k) ''X-EG-Aggregator'' (header (response (snd (Handle
        (demoEnv [''a'' \<mapsto> okResponse ''x1'', ''b'' \<mapsto> notFound ''y2''] [''b'', ''a''])
        (demoSpec 10 False True [''a'', ''b'']) (demoContext ''in''))))) = ''failed-in-b''
   \<and> payload (response (snd (Handle
        (demoEnv [''a'' \<mapsto> okResponse ''x1'', ''b'' \<mapsto> notFound ''y2''] [''b'', ''a''])
        (demoSpec 10 False True [''a'', ''b'']) (demoContext ''in'')))) = Some (bytesReader ''old'')
   \<and> Handle (demoEnv [''a'' \<mapsto> okResponse ''x1'', ''b'' \<mapsto> notFound ''y2''] [''b'', ''a''])
        (demoSpec 10 True True [''a'', ''b'']) (demoContext ''in'')
      = ([], SetReader ''{x:1;}'' (demoContext ''in''))"
proof -
  let ?E = "demoEnv [''a'' \<mapsto> okResponse ''x1'', ''b'' \<mapsto> notFound ''y2''] [''b'', ''a'']"
  let ?F = "demoSpec 10 False True [''a'', ''b'']"
  let ?T = "demoSpec 10 True True [''a'', ''b'']"
  let ?slots = "[Some (okResponse ''x1''), None]"
  have p: "Pipelines ?F = map demoPipeline [''a'', ''b'']"
    "Pipelines ?T = map demoPipeline [''a'', ''b'']" by (simp_all add: demoSpec_def)
  have f1: "readRequestBody ?F (demoContext ''in'') = Inr ''in''"
    and t1: "readRequestBody ?T (demoContext ''in'') = Inr ''in''"
    by (simp_all add: handle_defs demo_defs demoSpec_def)
  have d: "dispatch ?E ''in'' (map demoPipeline [''a'', ''b'']) (demoContext ''in'')
           = Inr (?slots, demoContext ''in'')"
    by (simp add: handle_defs demo_defs status_defs notFound_def)
  have i: "Suc 0 < length ?slots" "?slots ! Suc 0 = None" by simp_all
  have ok: "slotOK ?F (Some (okResponse ''x1''))" "slotOK ?T (Some (okResponse ''x1''))"
    by (simp_all add: slotOK_def readable_def demo_defs demoSpec_def)
  have okF: "\<not> PartialSucceed ?F \<and> (\<forall>j<Suc 0. slotOK ?F (?slots ! j))"
    using ok by (simp add: demoSpec_def)
  have c: "collected (Pipelines ?T) ?slots = [''a'' \<mapsto> ''x1'']"
    by (simp add: collected_def demo_defs demoSpec_def)
  have okT: "PartialSucceed ?T \<and> list_all (slotOK ?T) ?slots
       \<and> range_of (collected (Pipelines ?T) ?slots) (rangeOrder ?E (collected (Pipelines ?T) ?slots))
       \<and> (\<forall>n b. collected (Pipelines ?T) ?slots n = Some b \<longrightarrow> (\<exists>obj. decodesAs ?E b obj))
       \<and> (\<forall>v. Marshal ?E v \<noteq> None)"
  proof (intro conjI allI impI)
    show "PartialSucceed ?T" by (simp add: demoSpec_def)
    show "list_all (slotOK ?T) ?slots" using ok by (simp add: slotOK_def demoSpec_def)
    show "range_of (collected (Pipelines ?T) ?slots) (rangeOrder ?E (collected (Pipelines ?T) ?slots))"
      unfolding c by (simp add: range_of_def demo_defs)
    show "\<exists>obj. decodesAs ?E b obj" if "collected (Pipelines ?T) ?slots n = Some b" for n b
    proof -
      from that have "b = ''x1''" unfolding c by (simp split: if_splits)
      then show ?thesis using demo_decodes [of _ _ "CHR ''x''" "CHR ''1''"] by blast
    qed
    show "Marshal ?E v \<noteq> None" for v by (cases v) (simp_all add: demoEnv_def)
  qed
  have hT: "Handle ?E ?T (demoContext ''in'') = ([], SetReader ''{x:1;}'' (demoContext ''in''))"
    by (simp add: handle_defs demo_defs status_defs demoSpec_def notFound_def)
  note A = C4_empty_slot [OF f1 d [folded p(1)] i, THEN conjunct1, rule_format, OF okF]
  note B = C4_empty_slot [OF t1 d [folded p(2)] i, THEN conjunct2, rule_format, OF okT]
  from A B hT f1 d ok(1) show ?thesis
    by (simp add: status_defs demoEnv_def demoSpec_def demoPipeline_def demoContext_def)
qed

text \<open>
  Counterexample to C4 as stated: partial success is off and the second slot is
  empty, but the body of the first slot breaks off with a read error; \<open>Handle\<close> returns
  with status 500 before it reaches the empty slot.
\<close>

theorem C4_status_503_counterexample:
  "dispatch (demoEnv [''a'' \<mapsto> brokenResponse ''x1''] [''a''])
        ''in'' (Pipelines (demoSpec 10 False True [''a'', ''b''])) (demoContext ''in'')
      = Inr ([Some (brokenResponse ''x1''), None], demoContext ''in'')
   \<and> \<not> PartialSucceed (demoSpec 10 False True [''a'', ''b''])
   \<and> Handle (demoEnv [''a'' \<mapsto> brokenResponse ''x1''] [''a''])
        (demoSpec 10 False True [''a'', ''b'']) (demoContext ''in'')
      = (resultFailed,
         SetStatusCode StatusInternalServerError
           (AddTag (ReadResponseBodyFailed (Some (ErrOther ''connection reset'')))
              (demoContext ''in'')))
   \<and> StatusInternalServerError \<noteq> StatusServiceUnavailable"
  by (simp add: handle_defs demo_defs status_defs demoSpec_def brokenResponse_def)

subsection \<open>CertExtractor\<close>

lemma int16_id: "- 32768 \<le> x \<Longrightarrow> x \<le> 32767 \<Longrightarrow> int16 x = x"
  by (simp add: int16_def)

lemma smod_pos: "0 \<le> a \<Longrightarrow> 0 < b \<Longrightarrow> (a::int) smod b = a mod b"
  by (cases "a = 0") (simp_all add: smod_int_alt_def)

lemma smod_abs_less: "0 < b \<Longrightarrow> - b < (a::int) smod b \<and> a smod b < b"
proof -
  assume b: "0 < b"
  then have m: "0 \<le> \<bar>a\<bar> mod b" "\<bar>a\<bar> mod b < b" by simp_all
  consider "a < 0" | "a = 0" | "0 < a" by linarith
  then show ?thesis
  proof cases
    case 1
    then have "a smod b = - (\<bar>a\<bar> mod b)" using b by (simp add: smod_int_alt_def)
    with m b show ?thesis by linarith
  next
    case 2
    with b show ?thesis by simp
  next
    case 3
    then have "a smod b = \<bar>a\<bar> mod b" using b by (simp add: smod_int_alt_def)
    with m b show ?thesis by linarith
  qed
qed

lemma certAt_ok:
  assumes "0 < length certs" and "length certs \<le> 16384"
  shows "\<exists>c. certAt ci certs = Inr c \<and> c \<in> set certs"
proof -
  define n where "n = int (length certs)"
  have n: "0 < n" "n \<le> 16384" using assms by (simp_all add: n_def)
  then have n16: "int16 n = n" by (simp add: int16_id)
  define rel where "rel = sint ci smod n"
  have rel: "- n < rel" "rel < n" using smod_abs_less [OF n(1), of "sint ci"] by (simp_all add: rel_def)
  with n have rel16: "int16 rel = rel" by (simp add: int16_id)
  have sum: "0 < n + rel" "n + rel < 2 * n" using rel by simp_all
  with n have sum16: "int16 (n + rel) = n + rel" by (simp add: int16_id)
  define idx where "idx = (n + rel) smod n"
  have idx_mod: "idx = (n + rel) mod n" using sum n by (simp add: idx_def smod_pos)
  then have idx: "0 \<le> idx" "idx < n" using n by simp_all
  with n have idx16: "int16 idx = idx" by (simp add: int16_id)
  have "certAt ci certs = Inr (certs ! nat idx)"
    using n idx
    by (simp add: certAt_def Let_def n_def [symmetric] n16 rel_def [symmetric] rel16 sum16
        idx_def [symmetric] idx16)
  moreover have "nat idx < length certs" using idx by (simp add: n_def)
  ultimately show ?thesis by auto
qed

lemma addValues_values:
  "\<exists>vs. [] \<notin> set vs \<and>
     Header_Values (addValues canon key result h) k = Header_Values h k @ vs"
proof (induction result arbitrary: h)
  case Nil
  show ?case by (simp add: addValues_def)
next
  case (Cons res result)
  show ?case
  proof (cases "res = []")
    case True
    with Cons [of h] show ?thesis by (simp add: addValues_def)
  next
    case False
    from Cons [of "Header_Add canon key res h"] obtain vs where vs: "[] \<notin> set vs"
      and eq: "Header_Values (addValues canon key result (Header_Add canon key res h)) k =
               Header_Values (Header_Add canon key res h) k @ vs"
      by blast
    have "Header_Values (Header_Add canon key res h) k =
          Header_Values h k @ (if k = canon key then [res] else [])"
      by (simp add: Header_Values_def Header_Add_def)
    with eq False have "Header_Values (addValues canon key (res # result) h) k =
        Header_Values h k @ ((if k = canon key then [res] else []) @ vs)"
      by (simp add: addValues_def)
    moreover have "[] \<notin> set ((if k = canon key then [res] else []) @ vs)"
      using vs False by auto
    ultimately show ?thesis by blast
  qed
qed

lemma handle_ok:
  assumes "case TLS r of None \<Rightarrow> True | Some cs \<Rightarrow> length (PeerCertificates cs) \<le> 16384"
  shows "\<exists>r'. CertExtractor_Handle canon ce r = Inr ([], r') \<and> TLS r' = TLS r
          \<and> (\<forall>k. \<exists>vs. [] \<notin> set vs
                \<and> Header_Values (reqHeader r') k = Header_Values (reqHeader r) k @ vs)"
proof (cases "TLS r")
  case None
  then show ?thesis by (simp add: CertExtractor_Handle_def handle_def)
next
  case (Some cs)
  show ?thesis
  proof (cases "length (PeerCertificates cs) < 1")
    case True
    with Some show ?thesis by (simp add: CertExtractor_Handle_def handle_def)
  next
    case False
    with assms Some obtain c where c: "certAt (CertIndex (cespec ce)) (PeerCertificates cs) = Inr c"
      using certAt_ok [of "PeerCertificates cs" "CertIndex (cespec ce)"] by auto
    show ?thesis
      using Some False c addValues_values
      by (simp add: CertExtractor_Handle_def handle_def Let_def)
  qed
qed

text \<open>
  C7, as amended.  With three peer certificates the index 0 selects the first, -1 the
  last, 3 the first and -4 the last.  For a request without TLS state or with at most
  16384 peer certificates \<open>Handle\<close> returns the empty result, and the values it appends
  under any header key are never the empty string.
\<close>

theorem C7_cert_index_and_headers:
  "certAt 0 [c1, c2, c3] = Inr c1
   \<and> certAt (- 1) [c1, c2, c3] = Inr c3
   \<and> certAt 3 [c1, c2, c3] = Inr c1
   \<and> certAt (- 4) [c1, c2, c3] = Inr c3
   \<and> ((case TLS r of None \<Rightarrow> True | Some cs \<Rightarrow> length (PeerCertificates cs) \<le> 16384) \<longrightarrow>
        (\<exists>r'. CertExtractor_Handle canon ce r = Inr ([], r') \<and> TLS r' = TLS r
           \<and> (\<forall>k. \<exists>vs. [] \<notin> set vs
                 \<and> Header_Values (reqHeader r') k = Header_Values (reqHeader r) k @ vs)))"
proof (intro conjI impI)
  show "certAt 0 [c1, c2, c3] = Inr c1" by (simp add: certAt_def int16_def smod_int_alt_def)
  show "certAt (- 1) [c1, c2, c3] = Inr c3" by (simp add: certAt_def int16_def smod_int_alt_def)
  show "certAt 3 [c1, c2, c3] = Inr c1" by (simp add: certAt_def int16_def smod_int_alt_def)
  show "certAt (- 4) [c1, c2, c3] = Inr c3" by (simp add: certAt_def int16_def smod_int_alt_def)
next
  assume "case TLS r of None \<Rightarrow> True | Some cs \<Rightarrow> length (PeerCertificates cs) \<le> 16384"
  then show "\<exists>r'. CertExtractor_Handle canon ce r = Inr ([], r') \<and> TLS r' = TLS r
           \<and> (\<forall>k. \<exists>vs. [] \<notin> set vs
                 \<and> Header_Values (reqHeader r') k = Header_Values (reqHeader r) k @ vs)"
    by (rule handle_ok)
qed

text \<open>
  Witness for C7: three certificates, the last with an empty common name.  Index -4
  with field \<open>CommonName\<close> leaves the request as it is; index 1 adds the common name
  of the second certificate; the \<open>Country\<close> values \<open>NL\<close> and the empty string add
  \<open>NL\<close> only.
\<close>

theorem C7_cert_index_and_headers_witness:
  "(case TLS (demoTLS [demoCert ''one'', demoCert ''two'', demoCert []]) of None \<Rightarrow> True
    | Some cs \<Rightarrow> length (PeerCertificates cs) \<le> 16384)
   \<and> (\<exists>r'. CertExtractor_Handle (\<lambda>k. k) (demoExtractor (- 4) ''CommonName'')
               (demoTLS [demoCert ''one'', demoCert ''two'', demoCert []]) = Inr ([], r')
          \<and> TLS r' = TLS (demoTLS [demoCert ''one'', demoCert ''two'', demoCert []])
          \<and> (\<forall>k. \<exists>vs. [] \<notin> set vs \<and> Header_Values (reqHeader r') k
                = Header_Values (reqHeader (demoTLS [demoCert ''one'', demoCert ''two'', demoCert []])) k @ vs))
   \<and> CertExtractor_Handle (\<lambda>k. k) (demoExtractor (- 4) ''CommonName'')
        (demoTLS [demoCert ''one'', demoCert ''two'', demoCert []])
      = Inr ([], demoTLS [demoCert ''one'', demoCert ''two'', demoCert []])
   \<and> CertExtractor_Handle (\<lambda>k. k) (demoExtractor 1 ''CommonName'')
        (demoTLS [demoCert ''one'', demoCert ''two'', demoCert []])
      = Inr ([], (demoTLS [demoCert ''one'', demoCert ''two'', demoCert []])
                   \<lparr>reqHeader := [''tls-subject-CommonName'' \<mapsto> [''two'']]\<rparr>)
   \<and> CertExtractor_Handle (\<lambda>k. k) (demoExtractor 0 ''Country'')
        (demoTLS [demoCert ''one'', demoCert ''two'', demoCert []])
      = Inr ([], (demoTLS [demoCert ''one'', demoCert ''two'', demoCert []])
                   \<lparr>reqHeader := [''tls-subject-Country'' \<mapsto> [''NL'']]\<rparr>)"
proof -
  let ?r = "demoTLS [demoCert ''one'', demoCert ''two'', demoCert []]"
  have h: "case TLS ?r of None \<Rightarrow> True | Some cs \<Rightarrow> length (PeerCertificates cs) \<le> 16384"
    by (simp add: demoTLS_def)
  note th = C7_cert_index_and_headers [of _ _ _ ?r "\<lambda>k. k" "demoExtractor (- 4) ''CommonName''"]
  from th h have e: "\<exists>r'. CertExtractor_Handle (\<lambda>k. k) (demoExtractor (- 4) ''CommonName'') ?r = Inr ([], r')
          \<and> TLS r' = TLS ?r
          \<and> (\<forall>k. \<exists>vs. [] \<notin> set vs \<and> Header_Values (reqHeader r') k
                = Header_Values (reqHeader ?r) k @ vs)"
    by blast
  have v: "CertExtractor_Handle (\<lambda>k. k) (demoExtractor (- 4) ''CommonName'') ?r = Inr ([], ?r)"
    "CertExtractor_Handle (\<lambda>k. k) (demoExtractor 1 ''CommonName'') ?r
      = Inr ([], ?r\<lparr>reqHeader := [''tls-subject-CommonName'' \<mapsto> [''two'']]\<rparr>)"
    "CertExtractor_Handle (\<lambda>k. k) (demoExtractor 0 ''Country'') ?r
      = Inr ([], ?r\<lparr>reqHeader := [''tls-subject-Country'' \<mapsto> [''NL'']]\<rparr>)"
    by (simp_all add: CertExtractor_Handle_def handle_def demoExtractor_def CertExtractor_Init_def
        demoTLS_def certAt_def int16_def smod_int_alt_def demoCert_def demoName_def
        fieldValues_def addValues_def Header_Add_def)
  from h e v show ?thesis by blast
qed

text \<open>
  Counterexample to C7 as stated: with three certificates the index -4 selects the
  third certificate, not the first.  Moreover the sum \<open>n + relativeIndex\<close> overflows
  \<open>int16\<close> for 16385 certificates and index 16384, and the indexing panics.
\<close>

theorem C7_minus_four_counterexample:
  "certAt (- 4) [demoCert ''one'', demoCert ''two'', demoCert ''three''] = Inr (demoCert ''three'')
   \<and> demoCert ''three'' \<noteq> demoCert ''one''
   \<and> certAt 16384 (replicate 16385 (demoCert ''one'')) = Inl IndexOutOfRange"
  by (simp add: certAt_def int16_def smod_int_alt_def demoCert_def demoName_def)

subsection \<open>Fallback\<close>

lemma fold_set_fields:
  "statusCode (fold (\<lambda>(key, val) w'. w'\<lparr>header := Header_Set canon key val (header w')\<rparr>) kvs w)
     = statusCode w
   \<and> payload (fold (\<lambda>(key, val) w'. w'\<lparr>header := Header_Set canon key val (header w')\<rparr>) kvs w)
     = payload w
   \<and> header (fold (\<lambda>(key, val) w'. w'\<lparr>header := Header_Set canon key val (header w')\<rparr>) kvs w)
     = fold (\<lambda>(key, val) h. Header_Set canon key val h) kvs (header w)"
  by (induction kvs arbitrary: w) (simp_all add: case_prod_beta)

lemma fold_set_other:
  "\<forall>kv \<in> set kvs. canon (fst kv) \<noteq> c \<Longrightarrow>
   fold (\<lambda>(key, val) h. Header_Set canon key val h) kvs h c = h c"
proof (induction kvs arbitrary: h)
  case Nil
  then show ?case by simp
next
  case (Cons x xs)
  obtain k v where x: "x = (k, v)" by (cases x)
  from Cons have "fold (\<lambda>(key, val) h. Header_Set canon key val h) xs
               (Header_Set canon k v h) c = Header_Set canon k v h c"
    by simp
  moreover have "Header_Set canon k v h c = h c"
    using Cons.prems by (auto simp: Header_Set_def x)
  ultimately show ?case by (simp add: x)
qed

lemma fold_set_member:
  assumes "(k, v) \<in> set kvs"
    and "\<forall>kv \<in> set kvs. canon (fst kv) = canon k \<longrightarrow> kv = (k, v)"
  shows "fold (\<lambda>(key, val) h. Header_Set canon key val h) kvs h (canon k) = Some [v]"
  using assms
proof (induction kvs arbitrary: h)
  case Nil
  then show ?case by simp
next
  case (Cons x xs)
  show ?case
  proof (cases "(k, v) \<in> set xs")
    case True
    with Cons.prems(2) have "\<forall>kv \<in> set xs. canon (fst kv) = canon k \<longrightarrow> kv = (k, v)" by simp
    from Cons.IH [OF True this] show ?thesis by simp
  next
    case False
    with Cons.prems(1) have x: "x = (k, v)" by simp
    from Cons.prems(2) False have "\<forall>kv \<in> set xs. canon (fst kv) \<noteq> canon k" by auto
    from fold_set_other [OF this]
    have "fold (\<lambda>(key, val) h. Header_Set canon key val h) xs (Header_Set canon k v h) (canon k)
          = Header_Set canon k v h (canon k)" .
    moreover have "Header_Set canon k v h (canon k) = Some [v]" by (simp add: Header_Set_def)
    ultimately show ?thesis by (simp add: x)
  qed
qed

text \<open>
  C9, as amended.  For every enumeration of the mock headers, \<open>Fallback\<close> sets the
  status code to the mock code and the payload to the mock body; it sets every mock
  header whose canonical key no other mock header shares to its configured value; and
  it sets the content-length header to the decimal length of the mock body provided no
  mock header has the canonical key of \<open>Content-Length\<close>.
\<close>

theorem C9_fallback_mock_response:
  assumes "range_of (MockHeaders sp) (order (MockHeaders sp))"
  shows "statusCode (Fallback canon order (New sp) w) = MockCode sp
    \<and> payload (Fallback canon order (New sp) w) = Some (bytesReader (MockBody sp))
    \<and> (\<forall>k v. MockHeaders sp k = Some v
           \<and> (\<forall>k'. k' \<in> dom (MockHeaders sp) \<and> canon k' = canon k \<longrightarrow> k' = k)
         \<longrightarrow> Header_Get canon k (header (Fallback canon order (New sp) w)) = v)
    \<and> ((\<forall>k'. k' \<in> dom (MockHeaders sp) \<longrightarrow> canon k' \<noteq> canon KeyContentLength)
         \<longrightarrow> Header_Get canon KeyContentLength (header (Fallback canon order (New sp) w))
             = Itoa (int (length (MockBody sp))))"
proof -
  let ?kvs = "order (MockHeaders sp)"
  let ?h0 = "Header_Set canon KeyContentLength (Itoa (int (length (MockBody sp)))) (header w)"
  from assms have dist: "distinct (map fst ?kvs)" and m: "map_of ?kvs = MockHeaders sp"
    by (simp_all add: range_of_def)
  have hd: "header (Fallback canon order (New sp) w)
            = fold (\<lambda>(key, val) h. Header_Set canon key val h) ?kvs ?h0"
    by (simp add: Fallback_def New_def Let_def fold_set_fields)
  have st: "statusCode (Fallback canon order (New sp) w) = MockCode sp"
    by (simp add: Fallback_def New_def Let_def fold_set_fields)
  have pl: "payload (Fallback canon order (New sp) w) = Some (bytesReader (MockBody sp))"
    by (simp add: Fallback_def New_def Let_def)
  have mh: "Header_Get canon k (header (Fallback canon order (New sp) w)) = v"
    if a: "MockHeaders sp k = Some v
           \<and> (\<forall>k'. k' \<in> dom (MockHeaders sp) \<and> canon k' = canon k \<longrightarrow> k' = k)" for k v
  proof -
    from a m have mem: "(k, v) \<in> set ?kvs" using dist by (metis map_of_SomeD)
    have "\<forall>kv \<in> set ?kvs. canon (fst kv) = canon k \<longrightarrow> kv = (k, v)"
    proof (intro ballI impI)
      fix kv assume kv: "kv \<in> set ?kvs" and c: "canon (fst kv) = canon k"
      then have "(fst kv, snd kv) \<in> set ?kvs" by simp
      with dist have s: "map_of ?kvs (fst kv) = Some (snd kv)" by simp
      then have "fst kv \<in> dom (MockHeaders sp)" using m by auto
      with a c have f: "fst kv = k" by blast
      with s m a have "snd kv = v" by simp
      with f show "kv = (k, v)" by (simp add: prod_eq_iff)
    qed
    from fold_set_member [OF mem this] show ?thesis by (simp add: hd Header_Get_def)
  qed
  have cl: "Header_Get canon KeyContentLength (header (Fallback canon order (New sp) w))
             = Itoa (int (length (MockBody sp)))"
    if b: "\<forall>k'. k' \<in> dom (MockHeaders sp) \<longrightarrow> canon k' \<noteq> canon KeyContentLength"
  proof -
    have "\<forall>kv \<in> set ?kvs. canon (fst kv) \<noteq> canon KeyContentLength"
    proof
      fix kv assume kv: "kv \<in> set ?kvs"
      then have "(fst kv, snd kv) \<in> set ?kvs" by simp
      with dist have "map_of ?kvs (fst kv) = Some (snd kv)" by simp
      then have "fst kv \<in> dom (MockHeaders sp)" using m by auto
      with b show "canon (fst kv) \<noteq> canon KeyContentLength" by blast
    qed
    from fold_set_other [OF this] show ?thesis
      by (simp add: hd Header_Get_def Header_Set_def)
  qed
  from st pl mh cl show ?thesis by blast
qed

text \<open>
  Witness for C9: mock code 503, mock body \<open>hello\<close> and the mock header \<open>X-A\<close>.
\<close>

theorem C9_fallback_mock_response_witness:
  "range_of (MockHeaders (demoFallbackSpec [(''X-A'', ''1'')])) [(''X-A'', ''1'')]
   \<and> statusCode (Fallback (\<lambda>k. k) (\<lambda>m. [(''X-A'', ''1'')]) (New (demoFallbackSpec [(''X-A'', ''1'')]))
        (okResponse ''old'')) = 503
   \<and> payload (Fallback (\<lambda>k. k) (\<lambda>m. [(''X-A'', ''1'')]) (New (demoFallbackSpec [(''X-A'', ''1'')]))
        (okResponse ''old'')) = Some (bytesReader ''hello'')
   \<and> Header_Get (\<lambda>k. k) ''X-A'' (header (Fallback (\<lambda>k. k) (\<lambda>m. [(''X-A'', ''1'')])
        (New (demoFallbackSpec [(''X-A'', ''1'')])) (okResponse ''old''))) = ''1''
   \<and> Header_Get (\<lambda>k. k) KeyContentLength (header (Fallback (\<lambda>k. k) (\<lambda>m. [(''X-A'', ''1'')])
        (New (demoFallbackSpec [(''X-A'', ''1'')])) (okResponse ''old''))) = ''5''"
proof -
  let ?sp = "demoFallbackSpec [(''X-A'', ''1'')]"
  have r: "range_of (MockHeaders ?sp) ((\<lambda>m. [(''X-A'', ''1'')]) (MockHeaders ?sp))"
    by (simp add: range_of_def demoFallbackSpec_def)
  have a: "MockHeaders ?sp ''X-A'' = Some ''1''
      \<and> (\<forall>k'. k' \<in> dom (MockHeaders ?sp) \<and> (\<lambda>k. k) k' = (\<lambda>k. k) ''X-A'' \<longrightarrow> k' = ''X-A'')"
    by (simp add: demoFallbackSpec_def)
  have b: "\<forall>k'. k' \<in> dom (MockHeaders ?sp) \<longrightarrow> (\<lambda>k. k) k' \<noteq> (\<lambda>k. k) KeyContentLength"
    by (simp add: demoFallbackSpec_def KeyContentLength_def)
  have i: "Itoa 5 = ''5''"
    by (simp add: Itoa_def natDigits.simps)
  have s: "MockCode ?sp = 503" "MockBody ?sp = ''hello''" by (simp_all add: demoFallbackSpec_def)
  note th = C9_fallback_mock_response [OF r, of "\<lambda>k. k" "okResponse ''old''"]
  from th a have 1: "Header_Get (\<lambda>k. k) ''X-A'' (header (Fallback (\<lambda>k. k) (\<lambda>m. [(''X-A'', ''1'')])
        (New ?sp) (okResponse ''old''))) = ''1''" by blast
  from th b have 2: "Header_Get (\<lambda>k. k) KeyContentLength (header (Fallback (\<lambda>k. k) (\<lambda>m. [(''X-A'', ''1'')])
        (New ?sp) (okResponse ''old''))) = Itoa (int (length (MockBody ?sp)))" by blast
  from th have 3: "statusCode (Fallback (\<lambda>k. k) (\<lambda>m. [(''X-A'', ''1'')]) (New ?sp)
        (okResponse ''old'')) = MockCode ?sp"
    and 4: "payload (Fallback (\<lambda>k. k) (\<lambda>m. [(''X-A'', ''1'')]) (New ?sp)
        (okResponse ''old'')) = Some (bytesReader (MockBody ?sp))" by blast+
  from r 1 2 3 4 show ?thesis by (simp add: i s)
qed

text \<open>
  Counterexample to C9 as stated: a mock header \<open>Content-Length\<close> with value 99 is
  set after the precomputed length 5 and replaces it.
\<close>

theorem C9_content_length_counterexample:
  "range_of (MockHeaders (demoFallbackSpec [(''Content-Length'', ''99'')])) [(''Content-Length'', ''99'')]
   \<and> bodyLength (New (demoFallbackSpec [(''Content-Length'', ''99'')])) = ''5''
   \<and> Header_Get (\<lambda>k. k) KeyContentLength (header (Fallback (\<lambda>k. k) (\<lambda>m. [(''Content-Length'', ''99'')])
        (New (demoFallbackSpec [(''Content-Length'', ''99'')])) (okResponse ''old''))) = ''99''"
  by (simp add: range_of_def demoFallbackSpec_def New_def Itoa_def natDigits.simps Fallback_def
      Header_Get_def Header_Set_def KeyContentLength_def okResponse_def)

end
